theory Spec2Isabelle
  imports Complex_Main
begin

section \<open>The zoom transform (applyZoomTransform)\<close>

text \<open>
  JavaScript numbers are modelled as real numbers: arithmetic is exact and every value is
  finite. For a number \<open>x\<close> the test \<open>!x\<close> of the source is then \<open>x = 0\<close>.

  The three PIXI objects the function writes to are modelled by the fields it writes:
  the sprite's scale and position, the blur filter's \<open>blur\<close> (the filter may be null),
  and the drawing commands held by the mask graphics.
\<close>

datatype gfx_cmd =
    RoundRect real real real real real
  | Fill nat

record pixi_state =
  sprite_scale_x :: real
  sprite_scale_y :: real
  sprite_pos_x :: real
  sprite_pos_y :: real
  blurFilter :: "real option"
  maskGraphics :: "gfx_cmd list"

record transform_params =
  stage_width :: real
  stage_height :: real
  video_width :: real
  video_height :: real
  baseScale :: real
  baseOffset_x :: real
  baseOffset_y :: real
  baseMask_x :: real
  baseMask_y :: real
  baseMask_width :: real
  baseMask_height :: real
  cropOffset_x :: real
  cropOffset_y :: real
  zoomScale :: real
  focusX :: real
  focusY :: real
  motionIntensity :: real
  isPlaying :: bool

text \<open>The guard of lines 38-48: the condition under which the function returns at once.\<close>

definition degenerate :: "transform_params \<Rightarrow> bool" where
  "degenerate p \<longleftrightarrow>
     stage_width p = 0 \<or> stage_height p = 0 \<or>
     video_width p = 0 \<or> video_height p = 0 \<or>
     baseScale p \<le> 0 \<or> baseMask_width p \<le> 0 \<or> baseMask_height p \<le> 0"

text \<open>The local constants of lines 50-80, each as a function of the parameters.\<close>

definition focusStagePxX :: "transform_params \<Rightarrow> real" where
  "focusStagePxX p = baseMask_x p + focusX p * stage_width p"

definition focusStagePxY :: "transform_params \<Rightarrow> real" where
  "focusStagePxY p = baseMask_y p + focusY p * stage_height p"

definition stageCenterX :: "transform_params \<Rightarrow> real" where
  "stageCenterX p = baseMask_x p + stage_width p / 2"

definition stageCenterY :: "transform_params \<Rightarrow> real" where
  "stageCenterY p = baseMask_y p + stage_height p / 2"

definition actualScale :: "transform_params \<Rightarrow> real" where
  "actualScale p = baseScale p * zoomScale p"

definition focusInVideoSpaceX :: "transform_params \<Rightarrow> real" where
  "focusInVideoSpaceX p = focusStagePxX p - baseOffset_x p"

definition focusInVideoSpaceY :: "transform_params \<Rightarrow> real" where
  "focusInVideoSpaceY p = focusStagePxY p - baseOffset_y p"

text \<open>\<open>newVideoX\<close>, \<open>newVideoY\<close> as first assigned (lines 67-68), before any clamping.\<close>

definition newVideoX :: "transform_params \<Rightarrow> real" where
  "newVideoX p = stageCenterX p - focusInVideoSpaceX p * zoomScale p"

definition newVideoY :: "transform_params \<Rightarrow> real" where
  "newVideoY p = stageCenterY p - focusInVideoSpaceY p * zoomScale p"

definition cropEndX :: "transform_params \<Rightarrow> real" where
  "cropEndX p = cropOffset_x p + video_width p"

definition cropEndY :: "transform_params \<Rightarrow> real" where
  "cropEndY p = cropOffset_y p + video_height p"

definition minVideoX :: "transform_params \<Rightarrow> real" where
  "minVideoX p = baseMask_x p + baseMask_width p - cropEndX p * actualScale p"

definition maxVideoX :: "transform_params \<Rightarrow> real" where
  "maxVideoX p = baseMask_x p - cropOffset_x p * actualScale p"

definition minVideoY :: "transform_params \<Rightarrow> real" where
  "minVideoY p = baseMask_y p + baseMask_height p - cropEndY p * actualScale p"

definition maxVideoY :: "transform_params \<Rightarrow> real" where
  "maxVideoY p = baseMask_y p - cropOffset_y p * actualScale p"

text \<open>Lines 82-88: the reassignment of \<open>newVideoX\<close> and \<open>newVideoY\<close>.\<close>

definition clampedVideoX :: "transform_params \<Rightarrow> real" where
  "clampedVideoX p =
     (if minVideoX p \<le> maxVideoX p
      then max (minVideoX p) (min (maxVideoX p) (newVideoX p))
      else newVideoX p)"

definition clampedVideoY :: "transform_params \<Rightarrow> real" where
  "clampedVideoY p =
     (if minVideoY p \<le> maxVideoY p
      then max (minVideoY p) (min (maxVideoY p) (newVideoY p))
      else newVideoY p)"

text \<open>Lines 92-96: the blur written to the filter, when there is one.\<close>

definition motionBlur :: "transform_params \<Rightarrow> real" where
  "motionBlur p =
     (let shouldBlur = isPlaying p \<and> motionIntensity p > 0.0005
      in if shouldBlur then min 6 (motionIntensity p * 120) else 0)"

text \<open>
  The whole function. \<open>scale.set(v)\<close> with one argument sets both components;
  \<open>clear()\<close> empties the graphics before the rounded rectangle is drawn and filled
  (\<open>0xffffff = 16777215\<close>).
\<close>

definition applyZoomTransform :: "transform_params \<Rightarrow> pixi_state \<Rightarrow> pixi_state" where
  "applyZoomTransform p st =
     (if degenerate p then st
      else
        let st1 = st\<lparr>sprite_scale_x := actualScale p, sprite_scale_y := actualScale p\<rparr>;
            st2 = st1\<lparr>sprite_pos_x := clampedVideoX p, sprite_pos_y := clampedVideoY p\<rparr>;
            st3 = (case blurFilter st2 of
                     None \<Rightarrow> st2
                   | Some _ \<Rightarrow> st2\<lparr>blurFilter := Some (motionBlur p)\<rparr>);
            radius = min (baseMask_width p) (baseMask_height p) * 0.02
        in st3\<lparr>maskGraphics :=
                 [RoundRect (baseMask_x p) (baseMask_y p)
                            (baseMask_width p) (baseMask_height p) radius,
                  Fill 16777215]\<rparr>)"

subsection \<open>The properties the specification states, in its own words\<close>

text \<open>
  The specification's reading of the guard: any of the stage size, the video size, the base
  scale or the mask size is non-positive.
\<close>

definition spec_non_positive_geometry :: "transform_params \<Rightarrow> bool" where
  "spec_non_positive_geometry p \<longleftrightarrow>
     stage_width p \<le> 0 \<or> stage_height p \<le> 0 \<or>
     video_width p \<le> 0 \<or> video_height p \<le> 0 \<or>
     baseScale p \<le> 0 \<or> baseMask_width p \<le> 0 \<or> baseMask_height p \<le> 0"

text \<open>
  The centre of the (cropped) video on the stage for a sprite at position \<open>pos\<close>: the crop
  runs from \<open>cropOffset\<close> to \<open>cropOffset + videoSize\<close> in video pixels, drawn at
  \<open>actualScale\<close>. The centre of the mask is the centre of the \<open>baseMask\<close> rectangle.
\<close>

definition videoCenterX :: "transform_params \<Rightarrow> real \<Rightarrow> real" where
  "videoCenterX p pos = pos + (cropOffset_x p + video_width p / 2) * actualScale p"

definition videoCenterY :: "transform_params \<Rightarrow> real \<Rightarrow> real" where
  "videoCenterY p pos = pos + (cropOffset_y p + video_height p / 2) * actualScale p"

definition maskCenterX :: "transform_params \<Rightarrow> real" where
  "maskCenterX p = baseMask_x p + baseMask_width p / 2"

definition maskCenterY :: "transform_params \<Rightarrow> real" where
  "maskCenterY p = baseMask_y p + baseMask_height p / 2"

definition centers_aligned :: "transform_params \<Rightarrow> pixi_state \<Rightarrow> bool" where
  "centers_aligned p st \<longleftrightarrow>
     videoCenterX p (sprite_pos_x st) = maskCenterX p \<and>
     videoCenterY p (sprite_pos_y st) = maskCenterY p"

text \<open>Concrete inputs used below.\<close>

definition st0 :: pixi_state where
  "st0 = \<lparr>sprite_scale_x = 1, sprite_scale_y = 1, sprite_pos_x = 0, sprite_pos_y = 0,
          blurFilter = Some 0, maskGraphics = []\<rparr>"

definition geom0 :: transform_params where
  "geom0 = \<lparr>stage_width = 200, stage_height = 100, video_width = 100, video_height = 50,
            baseScale = 2, baseOffset_x = 0, baseOffset_y = 0,
            baseMask_x = 0, baseMask_y = 0, baseMask_width = 200, baseMask_height = 100,
            cropOffset_x = 0, cropOffset_y = 0,
            zoomScale = 1, focusX = 1/2, focusY = 1/2,
            motionIntensity = 0, isPlaying = False\<rparr>"

definition geom_neg :: transform_params where
  "geom_neg = geom0\<lparr>stage_width := -1\<rparr>"

definition geom_zoom :: transform_params where
  "geom_zoom = geom0\<lparr>zoomScale := 1/4, focusX := 1/4, focusY := 3/4, baseOffset_x := 10\<rparr>"

definition geom_clamp :: transform_params where
  "geom_clamp = geom0\<lparr>zoomScale := 2, focusX := 0, focusY := 3/4, video_height := 10\<rparr>"

definition geom_bad :: transform_params where
  "geom_bad = geom0\<lparr>baseScale := 1\<rparr>"

section \<open>The exporter (VideoExporter)\<close>

text \<open>
  The exporter runs on a single thread: \<open>export()\<close> is a coroutine that gives up control
  only at an \<open>await\<close>, and the encoder's callbacks, \<open>cancel()\<close> and the settling of
  promises run to completion in between. The model is a transition system whose steps are
  these uninterrupted turns. A state holds the fields of the \<open>VideoExporter\<close> object, the
  point at which \<open>export()\<close> is suspended with its local variables, the state of the
  collaborators that the code reads (the encoder's \<open>state\<close> and its queue of frames not
  yet emitted, the \<open>addVideoChunk\<close> promises not yet settled), and the trace of the calls
  made to the collaborators.

  One call of \<open>export()\<close> is modelled at a time: a second call on the same object
  while the first one is suspended is outside the model.

  The browser's \<open>VideoEncoder\<close> and the classes \<open>VideoFileDecoder\<close>,
  \<open>FrameRenderer\<close> and \<open>VideoMuxer\<close> are not among the sources. Their promises may
  settle either way and in any order; the events of a run choose. What the model fixes
  about the encoder is stated where it is used; in short: the encoder invokes \<open>output\<close>
  only for a frame that was passed to \<open>encode\<close> and is not yet emitted, and only while
  it is configured; the promise of \<open>flush()\<close> is not fulfilled while such a frame is
  left; after \<open>close()\<close> no callback runs.
\<close>

subsection \<open>Data\<close>

type_synonym bytes = "nat list"

type_synonym encoded_chunk = "nat list"

record color_space =
  primaries :: string
  transfer :: string
  matrix :: string
  fullRange :: bool

record decoder_config =
  codec :: string
  codedWidth :: "int option"
  codedHeight :: "int option"
  description :: "bytes option"
  colorSpace :: "color_space option"

record chunk_metadata =
  decoderConfig :: "decoder_config option"

text \<open>
  The fields of \<open>VideoExporterConfig\<close> that the exporter itself reads. The others
  (\<open>videoUrl\<close>, \<open>wallpaper\<close>, \<open>zoomRegions\<close>, ...) are only handed to the decoder and
  the renderer. \<open>onProgress\<close> tells whether a progress callback is present.
\<close>

record export_config =
  cfg_width :: int
  cfg_height :: int
  frameRate :: real
  bitrate :: real
  cfg_codec :: "string option"
  onProgress :: bool

text \<open>What the collaborators answer during one run, as far as the code looks at it.\<close>

record environment =
  video_duration :: real
  hardware_configure_error :: "string option"
  software_configure_error :: "string option"
  video_element_available :: bool
  needs_seek :: "nat \<Rightarrow> bool"

datatype codec_state = Unconfigured | Configured | Closed

record video_encoder =
  enc_state :: codec_state
  pending :: nat

record exporter =
  decoder :: "unit option"
  renderer :: "unit option"
  encoder :: "video_encoder option"
  muxer :: "unit option"
  cancelled :: bool
  encodeQueue :: int
  videoDescription :: "bytes option"
  videoColorSpace :: "color_space option"
  muxingPromises :: "nat list"
  chunkCount :: nat

definition MAX_ENCODE_QUEUE :: int where
  "MAX_ENCODE_QUEUE = 120"

record export_result =
  success :: bool
  blob :: "(encoded_chunk \<times> chunk_metadata option) list option"
  error :: "string option"

text \<open>The calls to the collaborators and to the console, in the order they are made.\<close>

datatype action =
    Seek nat
  | RenderFrame nat
  | Encode nat bool
  | Flush
  | AddVideoChunk encoded_chunk "chunk_metadata option"
  | Finalize
  | Progress nat int real
  | EncoderClose
  | DecoderDestroy
  | RendererDestroy
  | ConsoleError string

text \<open>
  The \<open>await\<close> at which \<open>export()\<close> is suspended (in the order of the source: lines
  44, 58, 62, 66, 91, 102, 123, 151, 155 and 158), or the value it has returned. \<open>AwaitInitEncoder\<close> carries the outcome of the promise
  of \<open>initializeEncoder()\<close>, which is already decided when it is awaited; \<open>AwaitMuxAll\<close>
  carries the array that was passed to \<open>Promise.all\<close>.
\<close>

datatype pc =
    AwaitLoadVideo
  | AwaitRendererInit
  | AwaitInitEncoder "string option"
  | AwaitMuxerInit
  | AwaitFrameReady
  | AwaitRenderFrame
  | AwaitBackpressure
  | AwaitFlush
  | AwaitMuxAll "nat list"
  | AwaitFinalize
  | Returned export_result

record run_state =
  this :: exporter
  pc :: pc
  frameIndex :: nat
  totalFrames :: int
  closure_videoDescription :: "bytes option"
  mux_pending :: "nat set"
  next_promise :: nat
  trace :: "action list"

datatype settle = Fulfilled | Rejected string

datatype event =
    Resume settle
  | EncoderOutput encoded_chunk "chunk_metadata option"
  | EncoderError string bool
  | Cancel
  | MuxSettled nat settle

subsection \<open>cleanup, cancel and the ways \<open>export()\<close> returns\<close>

definition emit :: "action list \<Rightarrow> run_state \<Rightarrow> run_state" where
  "emit as s = s\<lparr>trace := trace s @ as\<rparr>"

text \<open>
  \<open>cleanup()\<close>, lines 278-314. An exception of \<open>close()\<close> or \<open>destroy()\<close> is caught
  and only logged there, and the fields are reset all the same, so it is not modelled.
\<close>

definition cleanup :: "run_state \<Rightarrow> run_state" where
  "cleanup s =
     (let ex = this s;
          closing = (case encoder ex of
                       None \<Rightarrow> []
                     | Some e \<Rightarrow> if enc_state e = Configured then [EncoderClose] else []);
          destroying = (case decoder ex of None \<Rightarrow> [] | Some _ \<Rightarrow> [DecoderDestroy]);
          releasing = (case renderer ex of None \<Rightarrow> [] | Some _ \<Rightarrow> [RendererDestroy])
      in emit (closing @ destroying @ releasing)
           (s\<lparr>this := ex\<lparr>encoder := None, decoder := None, renderer := None, muxer := None,
                          encodeQueue := 0, muxingPromises := [], chunkCount := 0,
                          videoDescription := None, videoColorSpace := None\<rparr>\<rparr>))"

text \<open>\<open>cancel()\<close>, lines 273-276.\<close>

definition cancel :: "run_state \<Rightarrow> run_state" where
  "cancel s = cleanup (s\<lparr>this := (this s)\<lparr>cancelled := True\<rparr>\<rparr>)"

text \<open>A \<open>return\<close> inside the \<open>try\<close>: the \<open>finally\<close> block runs \<open>cleanup()\<close>.\<close>

definition return_result :: "run_state \<Rightarrow> export_result \<Rightarrow> run_state" where
  "return_result s r = (cleanup s)\<lparr>pc := Returned r\<rparr>"

text \<open>An exception inside the \<open>try\<close>: the \<open>catch\<close> block of lines 161-166.\<close>

definition throw :: "run_state \<Rightarrow> string \<Rightarrow> run_state" where
  "throw s msg =
     return_result (emit [ConsoleError (''Export error: '' @ msg)] s)
       \<lparr>success = False, blob = None, error = Some msg\<rparr>"

text \<open>
  The message of the \<open>TypeError\<close> raised by a call on a field that is null. Its wording
  depends on the JavaScript engine; what matters below is that it is not the message of a
  cancellation.
\<close>

definition null_call :: "string \<Rightarrow> string" where
  "null_call method = ''Cannot read properties of null (reading '' @ method @ '')''"

definition cancelled_result :: export_result where
  "cancelled_result = \<lparr>success = False, blob = None, error = Some ''Export cancelled''\<rparr>"

subsection \<open>initializeEncoder and the encoder's callbacks\<close>

definition codec_or_default :: "export_config \<Rightarrow> string" where
  "codec_or_default cfg =
     (case cfg_codec cfg of
        None \<Rightarrow> ''avc1.64001f''
      | Some c \<Rightarrow> if c = [] then ''avc1.64001f'' else c)"

text \<open>
  \<open>initializeEncoder()\<close>, lines 172-271, with the message of the exception it throws
  when both calls of \<open>configure\<close> fail.
\<close>

definition initializeEncoder :: "environment \<Rightarrow> run_state \<Rightarrow> run_state \<times> string option" where
  "initializeEncoder env s =
     (let s1 = s\<lparr>this := (this s)\<lparr>encodeQueue := 0, muxingPromises := [], chunkCount := 0,
                                   encoder := Some \<lparr>enc_state = Unconfigured, pending = 0\<rparr>\<rparr>,
                 closure_videoDescription := None\<rparr>;
          configured = s1\<lparr>this := (this s1)\<lparr>encoder := Some \<lparr>enc_state = Configured, pending = 0\<rparr>\<rparr>\<rparr>
      in case hardware_configure_error env of
           None \<Rightarrow> (configured, None)
         | Some _ \<Rightarrow>
             (case software_configure_error env of
                None \<Rightarrow> (configured, None)
              | Some m \<Rightarrow>
                  (emit [ConsoleError ''[VideoExporter] Software encoding also failed''] s1,
                   Some (''Failed to initialize video encoder: '' @ m))))"

text \<open>\<open>meta?.decoderConfig?.description\<close> and \<open>meta?.decoderConfig?.colorSpace\<close>.\<close>

definition meta_description :: "chunk_metadata option \<Rightarrow> bytes option" where
  "meta_description meta =
     (case meta of
        None \<Rightarrow> None
      | Some m \<Rightarrow> (case decoderConfig m of None \<Rightarrow> None | Some dc \<Rightarrow> description dc))"

definition meta_colorSpace :: "chunk_metadata option \<Rightarrow> color_space option" where
  "meta_colorSpace meta =
     (case meta of
        None \<Rightarrow> None
      | Some m \<Rightarrow> (case decoderConfig m of None \<Rightarrow> None | Some dc \<Rightarrow> colorSpace dc))"

definition default_colorSpace :: color_space where
  "default_colorSpace =
     \<lparr>primaries = ''bt709'', transfer = ''iec61966-2-1'', matrix = ''rgb'', fullRange = True\<rparr>"

text \<open>
  Lines 181-189 of the \<open>output\<close> callback: the description is captured once per
  encoder (the test reads the local variable of \<open>initializeEncoder\<close>), the colour space
  once per run (the test reads the field). Objects (a description, a colour space) are
  always truthy.
\<close>

definition capture_decoder_config :: "run_state \<Rightarrow> chunk_metadata option \<Rightarrow> run_state" where
  "capture_decoder_config s meta =
     (let s1 = (case meta_description meta of
                  None \<Rightarrow> s
                | Some desc \<Rightarrow>
                    if closure_videoDescription s = None
                    then s\<lparr>closure_videoDescription := Some desc,
                           this := (this s)\<lparr>videoDescription := Some desc\<rparr>\<rparr>
                    else s)
      in case meta_colorSpace meta of
           None \<Rightarrow> s1
         | Some cs \<Rightarrow>
             if videoColorSpace (this s1) = None
             then s1\<lparr>this := (this s1)\<lparr>videoColorSpace := Some cs\<rparr>\<rparr>
             else s1)"

text \<open>Lines 199-214: the metadata built for the first chunk.\<close>

definition synthesized_metadata :: "export_config \<Rightarrow> exporter \<Rightarrow> chunk_metadata" where
  "synthesized_metadata cfg ex =
     \<lparr>decoderConfig = Some
        \<lparr>codec = codec_or_default cfg,
         codedWidth = Some (cfg_width cfg),
         codedHeight = Some (cfg_height cfg),
         description = videoDescription ex,
         colorSpace = Some (case videoColorSpace ex of
                              Some cs \<Rightarrow> cs
                            | None \<Rightarrow> default_colorSpace)\<rparr>\<rparr>"

text \<open>
  The asynchronous function of lines 195-223, which runs at once up to its \<open>await\<close>:
  \<open>addVideoChunk\<close> is called inside the callback, and its promise is the one the function
  waits for. When \<open>this.muxer\<close> is null the call raises a \<open>TypeError\<close>, which the
  \<open>catch\<close> of line 220 logs, and no chunk is added.
\<close>

definition start_muxing ::
  "export_config \<Rightarrow> run_state \<Rightarrow> bool \<Rightarrow> encoded_chunk \<Rightarrow> chunk_metadata option \<Rightarrow> run_state"
  where
  "start_muxing cfg s isFirstChunk chunk meta =
     (let metadata = (if isFirstChunk \<and> videoDescription (this s) \<noteq> None
                      then Some (synthesized_metadata cfg (this s))
                      else meta)
      in case muxer (this s) of
           None \<Rightarrow> emit [ConsoleError ''Muxing error: TypeError''] s
         | Some _ \<Rightarrow>
             emit [AddVideoChunk chunk metadata]
               (s\<lparr>mux_pending := insert (next_promise s) (mux_pending s)\<rparr>))"

text \<open>The \<open>output\<close> callback, lines 179-227.\<close>

definition output_callback ::
  "export_config \<Rightarrow> run_state \<Rightarrow> encoded_chunk \<Rightarrow> chunk_metadata option \<Rightarrow> run_state" where
  "output_callback cfg s chunk meta =
     (let s1 = capture_decoder_config s meta;
          isFirstChunk = (chunkCount (this s1) = 0);
          s2 = s1\<lparr>this := (this s1)\<lparr>chunkCount := chunkCount (this s1) + 1\<rparr>\<rparr>;
          s3 = start_muxing cfg s2 isFirstChunk chunk meta
      in s3\<lparr>this := (this s3)\<lparr>muxingPromises := muxingPromises (this s3) @ [next_promise s3],
                                encodeQueue := encodeQueue (this s3) - 1\<rparr>,
             next_promise := next_promise s3 + 1\<rparr>)"

text \<open>The \<open>error\<close> callback, lines 228-230.\<close>

definition error_callback :: "run_state \<Rightarrow> string \<Rightarrow> run_state" where
  "error_callback s msg = emit [ConsoleError (''VideoEncoder error: '' @ msg)] s"

subsection \<open>The segments of \<open>export()\<close> between two awaits\<close>

text \<open>
  Lines 38-44: from the call of \<open>export()\<close> on an exporter object in any state to the
  first \<open>await\<close>.
\<close>

definition export_begin :: "exporter \<Rightarrow> run_state" where
  "export_begin ex0 =
     (let s = cleanup \<lparr>this = ex0, pc = AwaitLoadVideo, frameIndex = 0, totalFrames = 0,
                       closure_videoDescription = None, mux_pending = {}, next_promise = 0,
                       trace = []\<rparr>
      in s\<lparr>this := (this s)\<lparr>cancelled := False, decoder := Some ()\<rparr>\<rparr>)"

text \<open>Lines 145-155, after the loop.\<close>

definition await_muxing :: "run_state \<Rightarrow> run_state" where
  "await_muxing s = s\<lparr>pc := AwaitMuxAll (muxingPromises (this s))\<rparr>"

definition after_loop :: "run_state \<Rightarrow> run_state" where
  "after_loop s =
     (if cancelled (this s) then return_result s cancelled_result
      else case encoder (this s) of
             None \<Rightarrow> await_muxing s
           | Some e \<Rightarrow>
               if enc_state e = Configured then (emit [Flush] s)\<lparr>pc := AwaitFlush\<rparr>
               else await_muxing s)"

text \<open>Lines 97-102: the frame is taken from the video element and handed to the renderer.\<close>

definition render_frame :: "run_state \<Rightarrow> run_state" where
  "render_frame s =
     (case renderer (this s) of
        None \<Rightarrow> throw s (null_call ''renderFrame'')
      | Some _ \<Rightarrow> (emit [RenderFrame (frameIndex s)] s)\<lparr>pc := AwaitRenderFrame\<rparr>)"

text \<open>Lines 79-94: the test of the loop and the start of an iteration.\<close>

definition loop_head :: "environment \<Rightarrow> run_state \<Rightarrow> run_state" where
  "loop_head env s =
     (if int (frameIndex s) < totalFrames s \<and> \<not> cancelled (this s)
      then let i = frameIndex s; needsSeek = needs_seek env i
           in if needsSeek \<or> i = 0
              then (emit (if needsSeek then [Seek i] else []) s)\<lparr>pc := AwaitFrameReady\<rparr>
              else render_frame s
      else after_loop s)"

text \<open>Lines 126-142: the submission, the increment of the frame index and the progress.\<close>

definition submit_frame :: "export_config \<Rightarrow> run_state \<Rightarrow> run_state" where
  "submit_frame cfg s =
     (let i = frameIndex s;
          s1 = (case encoder (this s) of
                  None \<Rightarrow> s
                | Some e \<Rightarrow>
                    if enc_state e = Configured
                    then emit [Encode i (i mod 150 = 0)]
                           (s\<lparr>this := (this s)\<lparr>encodeQueue := encodeQueue (this s) + 1,
                                                  encoder := Some (e\<lparr>pending := pending e + 1\<rparr>)\<rparr>\<rparr>)
                    else s);
          s2 = s1\<lparr>frameIndex := i + 1\<rparr>
      in if onProgress cfg
         then emit [Progress (frameIndex s2) (totalFrames s2)
                     (real (frameIndex s2) / real_of_int (totalFrames s2) * 100)] s2
         else s2)"

text \<open>Lines 122-124 and what follows when the wait is over.\<close>

definition backpressure :: "environment \<Rightarrow> export_config \<Rightarrow> run_state \<Rightarrow> run_state" where
  "backpressure env cfg s =
     (if encodeQueue (this s) \<ge> MAX_ENCODE_QUEUE \<and> \<not> cancelled (this s)
      then s\<lparr>pc := AwaitBackpressure\<rparr>
      else loop_head env (submit_frame cfg s))"

text \<open>
  Modelled from the spec: the encoder of the browser, which is not among the sources
  (section 4.3: \<open>flush()\<close> "suspends until all submitted work has emitted"). A frame
  handed to \<open>encode\<close> is still to be emitted by a configured encoder; as long as this
  holds, the promise of \<open>flush()\<close> is not fulfilled.
\<close>

definition outputs_pending :: "run_state \<Rightarrow> bool" where
  "outputs_pending s =
     (case encoder (this s) of
        None \<Rightarrow> False
      | Some e \<Rightarrow> enc_state e = Configured \<and> pending e > 0)"

definition muxed :: "action list \<Rightarrow> (encoded_chunk \<times> chunk_metadata option) list" where
  "muxed as = concat (map (\<lambda>a. case a of AddVideoChunk c m \<Rightarrow> [(c, m)] | _ \<Rightarrow> []) as)"

text \<open>
  The continuation of \<open>export()\<close> when the promise it awaits settles. \<open>None\<close> means that
  the promise cannot settle that way in this state: the promises of lines 91, 123 and 155
  are never rejected, \<open>flush()\<close> is not fulfilled while a frame is still to be emitted,
  and \<open>Promise.all\<close> is not fulfilled while one of its promises is unsettled.
\<close>

definition resume ::
  "environment \<Rightarrow> export_config \<Rightarrow> run_state \<Rightarrow> settle \<Rightarrow> run_state option" where
  "resume env cfg s outcome =
     (case pc s of
        AwaitLoadVideo \<Rightarrow>
          (case outcome of
             Rejected m \<Rightarrow> Some (throw s m)
           | Fulfilled \<Rightarrow>
               Some (s\<lparr>this := (this s)\<lparr>renderer := Some ()\<rparr>, pc := AwaitRendererInit\<rparr>))
      | AwaitRendererInit \<Rightarrow>
          (case outcome of
             Rejected m \<Rightarrow> Some (throw s m)
           | Fulfilled \<Rightarrow>
               (let s1 = s\<lparr>totalFrames := \<lceil>video_duration env * frameRate cfg\<rceil>\<rparr>;
                    (s2, failure) = initializeEncoder env s1
                in Some (s2\<lparr>pc := AwaitInitEncoder failure\<rparr>)))
      | AwaitInitEncoder failure \<Rightarrow>
          (case failure of
             Some m \<Rightarrow> if outcome = Rejected m then Some (throw s m) else None
           | None \<Rightarrow>
               if outcome = Fulfilled
               then Some (s\<lparr>this := (this s)\<lparr>muxer := Some ()\<rparr>, pc := AwaitMuxerInit\<rparr>)
               else None)
      | AwaitMuxerInit \<Rightarrow>
          (case outcome of
             Rejected m \<Rightarrow> Some (throw s m)
           | Fulfilled \<Rightarrow>
               (case decoder (this s) of
                  None \<Rightarrow> Some (throw s (null_call ''getVideoElement''))
                | Some _ \<Rightarrow>
                    if \<not> video_element_available env
                    then Some (throw s ''Video element not available'')
                    else Some (loop_head env (s\<lparr>frameIndex := 0\<rparr>))))
      | AwaitFrameReady \<Rightarrow>
          (case outcome of
             Rejected _ \<Rightarrow> None
           | Fulfilled \<Rightarrow> Some (render_frame s))
      | AwaitRenderFrame \<Rightarrow>
          (case outcome of
             Rejected m \<Rightarrow> Some (throw s m)
           | Fulfilled \<Rightarrow>
               (case renderer (this s) of
                  None \<Rightarrow> Some (throw s (null_call ''getCanvas''))
                | Some _ \<Rightarrow> Some (backpressure env cfg s)))
      | AwaitBackpressure \<Rightarrow>
          (case outcome of
             Rejected _ \<Rightarrow> None
           | Fulfilled \<Rightarrow> Some (backpressure env cfg s))
      | AwaitFlush \<Rightarrow>
          (case outcome of
             Rejected m \<Rightarrow> Some (throw s m)
           | Fulfilled \<Rightarrow> if outputs_pending s then None else Some (await_muxing s))
      | AwaitMuxAll promises \<Rightarrow>
          (case outcome of
             Rejected _ \<Rightarrow> None
           | Fulfilled \<Rightarrow>
               if \<exists>p \<in> set promises. p \<in> mux_pending s then None
               else (case muxer (this s) of
                       None \<Rightarrow> Some (throw s (null_call ''finalize''))
                     | Some _ \<Rightarrow> Some ((emit [Finalize] s)\<lparr>pc := AwaitFinalize\<rparr>)))
      | AwaitFinalize \<Rightarrow>
          (case outcome of
             Rejected m \<Rightarrow> Some (throw s m)
           | Fulfilled \<Rightarrow>
               Some (return_result s
                       \<lparr>success = True, blob = Some (muxed (trace s)), error = None\<rparr>))
      | Returned _ \<Rightarrow> None)"

subsection \<open>The turns of the event loop\<close>

text \<open>
  Modelled from the spec: the turns of the browser's encoder and of the muxer, which are
  not among the sources (sections 4.3 and 4.4). The encoder emits a chunk only for a frame
  it still holds; it reports an error while it is configured, either closing itself (the
  flag is true: the frames it holds are discarded, and its \<open>state\<close> is no longer
  \<open>configured\<close>) or losing one frame it holds; the promise of an \<open>addVideoChunk\<close> call
  settles once, and a rejection is logged by the \<open>catch\<close> of line 220. The other turns
  are the code's own: \<open>export()\<close> is resumed, or \<open>cancel()\<close> is called, which may happen
  at any time.
\<close>

definition step ::
  "environment \<Rightarrow> export_config \<Rightarrow> run_state \<Rightarrow> event \<Rightarrow> run_state option" where
  "step env cfg s ev =
     (case ev of
        Resume outcome \<Rightarrow> resume env cfg s outcome
      | EncoderOutput chunk meta \<Rightarrow>
          (case encoder (this s) of
             None \<Rightarrow> None
           | Some e \<Rightarrow>
               if enc_state e = Configured \<and> pending e > 0
               then Some (output_callback cfg
                            (s\<lparr>this := (this s)\<lparr>encoder := Some (e\<lparr>pending := pending e - 1\<rparr>)\<rparr>\<rparr>)
                            chunk meta)
               else None)
      | EncoderError msg closes \<Rightarrow>
          (case encoder (this s) of
             None \<Rightarrow> None
           | Some e \<Rightarrow>
               if enc_state e = Configured \<and> (closes \<or> pending e > 0)
               then Some (error_callback
                            (s\<lparr>this := (this s)\<lparr>encoder := Some
                                  (if closes then e\<lparr>enc_state := Closed, pending := 0\<rparr>
                                   else e\<lparr>pending := pending e - 1\<rparr>)\<rparr>\<rparr>)
                            msg)
               else None)
      | Cancel \<Rightarrow> Some (cancel s)
      | MuxSettled p outcome \<Rightarrow>
          if p \<in> mux_pending s
          then Some ((case outcome of
                        Fulfilled \<Rightarrow> (\<lambda>s. s)
                      | Rejected m \<Rightarrow> emit [ConsoleError (''Muxing error: '' @ m)])
                       (s\<lparr>mux_pending := mux_pending s - {p}\<rparr>))
          else None)"

fun run :: "environment \<Rightarrow> export_config \<Rightarrow> run_state \<Rightarrow> event list \<Rightarrow> run_state option" where
  "run env cfg s [] = Some s"
| "run env cfg s (ev # evs) =
     (case step env cfg s ev of None \<Rightarrow> None | Some s' \<Rightarrow> run env cfg s' evs)"

text \<open>The states of all runs of \<open>export()\<close>, on any exporter object.\<close>

inductive reachable :: "environment \<Rightarrow> export_config \<Rightarrow> run_state \<Rightarrow> bool"
  for env :: environment and cfg :: export_config where
    start: "reachable env cfg (export_begin ex0)"
  | turn: "reachable env cfg s \<Longrightarrow> step env cfg s ev = Some s' \<Longrightarrow> reachable env cfg s'"

subsection \<open>Observations on a trace\<close>

definition calls :: "(action \<Rightarrow> bool) \<Rightarrow> run_state \<Rightarrow> nat" where
  "calls P s = length (filter P (trace s))"

fun is_encode :: "action \<Rightarrow> bool" where
  "is_encode (Encode _ _) = True"
| "is_encode _ = False"

fun is_chunk :: "action \<Rightarrow> bool" where
  "is_chunk (AddVideoChunk _ _) = True"
| "is_chunk _ = False"

definition encode_calls :: "run_state \<Rightarrow> nat" where
  "encode_calls s = calls is_encode s"

definition flush_calls :: "run_state \<Rightarrow> nat" where
  "flush_calls s = calls (\<lambda>a. a = Flush) s"

definition finalize_calls :: "run_state \<Rightarrow> nat" where
  "finalize_calls s = calls (\<lambda>a. a = Finalize) s"

definition chunks_added :: "run_state \<Rightarrow> nat" where
  "chunks_added s = calls is_chunk s"

text \<open>The frames handed to \<open>encode\<close> that the encoder still holds.\<close>

definition frames_in_flight :: "run_state \<Rightarrow> nat" where
  "frames_in_flight s = (case encoder (this s) of None \<Rightarrow> 0 | Some e \<Rightarrow> pending e)"

definition encoder_configured :: "run_state \<Rightarrow> bool" where
  "encoder_configured s =
     (case encoder (this s) of None \<Rightarrow> False | Some e \<Rightarrow> enc_state e = Configured)"

subsection \<open>Invariants of the runs\<close>

text \<open>The awaits inside the frame loop.\<close>

definition loop_pc :: "pc \<Rightarrow> bool" where
  "loop_pc p \<longleftrightarrow> p = AwaitFrameReady \<or> p = AwaitRenderFrame \<or> p = AwaitBackpressure"

text \<open>The awaits at which \<open>export()\<close> holds a renderer unless it has been cancelled.\<close>

fun live_pc :: "pc \<Rightarrow> bool" where
  "live_pc AwaitLoadVideo = False"
| "live_pc (Returned _) = False"
| "live_pc _ = True"

text \<open>
  Inside the loop: the counter is within its bound, the encoder holds at most as many
  frames as the counter says, a cancelled exporter has released its decoder, its encoder
  and its renderer, and an exporter that is not cancelled has its renderer.
\<close>

definition loop_inv :: "run_state \<Rightarrow> bool" where
  "loop_inv s \<longleftrightarrow>
     encodeQueue (this s) \<le> MAX_ENCODE_QUEUE \<and>
     int (frames_in_flight s) \<le> encodeQueue (this s) \<and>
     (if cancelled (this s)
      then decoder (this s) = None \<and> encoder (this s) = None \<and> renderer (this s) = None
      else renderer (this s) \<noteq> None)"

text \<open>The same at every point of a run.\<close>

definition queue_inv :: "run_state \<Rightarrow> bool" where
  "queue_inv s \<longleftrightarrow>
     encodeQueue (this s) \<le> MAX_ENCODE_QUEUE \<and>
     int (frames_in_flight s) \<le> encodeQueue (this s) \<and>
     (cancelled (this s) \<longrightarrow>
        decoder (this s) = None \<and>
        (loop_pc (pc s) \<longrightarrow> encoder (this s) = None \<and> renderer (this s) = None)) \<and>
     (\<not> cancelled (this s) \<and> live_pc (pc s) \<longrightarrow> renderer (this s) \<noteq> None)"

text \<open>
  A kind of call that neither the release of resources, nor the console, nor the seeking,
  rendering and progress reports of the loop make.
\<close>

definition quiet :: "(action \<Rightarrow> bool) \<Rightarrow> bool" where
  "quiet P \<longleftrightarrow>
     \<not> P EncoderClose \<and> \<not> P DecoderDestroy \<and> \<not> P RendererDestroy \<and>
     (\<forall>m. \<not> P (ConsoleError m)) \<and> (\<forall>i. \<not> P (Seek i)) \<and> (\<forall>i. \<not> P (RenderFrame i)) \<and>
     (\<forall>i n x. \<not> P (Progress i n x))"

text \<open>The awaits before the muxer is created.\<close>

fun early_pc :: "pc \<Rightarrow> bool" where
  "early_pc AwaitLoadVideo = True"
| "early_pc AwaitRendererInit = True"
| "early_pc (AwaitInitEncoder _) = True"
| "early_pc _ = False"

text \<open>
  What a segment of the loop leaves untouched on the side of the muxer, and where it can
  end: with a failure or a cancellation returned, at an await of the loop, at the await of
  \<open>flush()\<close>, which it has just called on a configured encoder, or at the await of
  \<open>Promise.all\<close> when the encoder is not configured.
\<close>

definition same_session :: "run_state \<Rightarrow> run_state \<Rightarrow> bool" where
  "same_session s t \<longleftrightarrow>
     muxer (this t) = muxer (this s) \<and>
     muxingPromises (this t) = muxingPromises (this s) \<and>
     chunkCount (this t) = chunkCount (this s) \<and>
     videoDescription (this t) = videoDescription (this s) \<and>
     videoColorSpace (this t) = videoColorSpace (this s) \<and>
     cancelled (this t) = cancelled (this s) \<and>
     (encoder (this t) = None \<longleftrightarrow> encoder (this s) = None) \<and>
     encoder_configured t = encoder_configured s"

definition segment_result :: "run_state \<Rightarrow> run_state \<Rightarrow> bool" where
  "segment_result s t \<longleftrightarrow>
     mux_pending t = mux_pending s \<and>
     closure_videoDescription t = closure_videoDescription s \<and>
     finalize_calls t = finalize_calls s \<and>
     chunks_added t = chunks_added s \<and>
     ((\<exists>r. pc t = Returned r \<and> \<not> success r \<and> encoder (this t) = None \<and> muxer (this t) = None)
      \<or> (loop_pc (pc t) \<and> same_session s t \<and> flush_calls t = flush_calls s)
      \<or> (pc t = AwaitFlush \<and> same_session s t \<and> encoder_configured t \<and>
          flush_calls t = Suc (flush_calls s))
      \<or> (pc t = AwaitMuxAll (muxingPromises (this s)) \<and> same_session s t \<and>
          \<not> encoder_configured t \<and> flush_calls t = flush_calls s))"

text \<open>
  Every pending \<open>addVideoChunk\<close> promise is in \<open>muxingPromises\<close> as long as the muxer
  is there; while \<open>Promise.all\<close> is awaited, no chunk is still to come and the pending
  promises are among those awaited.
\<close>

definition promise_inv :: "run_state \<Rightarrow> bool" where
  "promise_inv s \<longleftrightarrow>
     (muxer (this s) \<noteq> None \<longrightarrow> mux_pending s \<subseteq> set (muxingPromises (this s))) \<and>
     (early_pc (pc s) \<longrightarrow> mux_pending s = {} \<and> muxer (this s) = None) \<and>
     (\<forall>ps. pc s = AwaitMuxAll ps \<longrightarrow>
        \<not> outputs_pending s \<and> (muxer (this s) \<noteq> None \<longrightarrow> mux_pending s \<subseteq> set ps))"

text \<open>The numbers of calls of \<open>flush()\<close> and \<open>finalize()\<close> at each point.\<close>

definition count_inv :: "run_state \<Rightarrow> bool" where
  "count_inv s \<longleftrightarrow>
     (case pc s of
        AwaitFlush \<Rightarrow> finalize_calls s = 0 \<and> flush_calls s = 1
      | AwaitMuxAll ps \<Rightarrow>
          finalize_calls s = 0 \<and> flush_calls s \<le> 1 \<and>
          (flush_calls s = 0 \<longrightarrow> \<not> encoder_configured s)
      | AwaitFinalize \<Rightarrow> finalize_calls s = 1
      | Returned r \<Rightarrow> finalize_calls s \<le> 1 \<and> (success r \<longrightarrow> finalize_calls s = 1)
      | _ \<Rightarrow> finalize_calls s = 0 \<and> flush_calls s = 0)"

text \<open>
  As long as the encoder is there, \<open>chunkCount\<close> counts the chunks handed to the muxer,
  and nothing has been captured before the first of them.
\<close>

definition meta_inv :: "run_state \<Rightarrow> bool" where
  "meta_inv s \<longleftrightarrow>
     (early_pc (pc s) \<longrightarrow>
        chunks_added s = 0 \<and> videoDescription (this s) = None \<and>
        videoColorSpace (this s) = None) \<and>
     (case encoder (this s) of
        None \<Rightarrow> True
      | Some e \<Rightarrow>
          (if early_pc (pc s) then pending e = 0 else muxer (this s) \<noteq> None) \<and>
          chunkCount (this s) = chunks_added s \<and>
          (chunkCount (this s) = 0 \<longrightarrow>
             videoDescription (this s) = None \<and> closure_videoDescription s = None \<and>
             videoColorSpace (this s) = None))"

subsection \<open>Concrete runs\<close>

definition new_exporter :: exporter where
  "new_exporter =
     \<lparr>decoder = None, renderer = None, encoder = None, muxer = None, cancelled = False,
      encodeQueue = 0, videoDescription = None, videoColorSpace = None,
      muxingPromises = [], chunkCount = 0\<rparr>"

definition cfg0 :: export_config where
  "cfg0 = \<lparr>cfg_width = 640, cfg_height = 360, frameRate = 1, bitrate = 1000000,
           cfg_codec = None, onProgress = True\<rparr>"

definition env0 :: environment where
  "env0 = \<lparr>video_duration = 2, hardware_configure_error = None,
           software_configure_error = None, video_element_available = True,
           needs_seek = (\<lambda>i. True)\<rparr>"

text \<open>The four awaits of the set-up, each fulfilled.\<close>

definition setup_events :: "event list" where
  "setup_events = [Resume Fulfilled, Resume Fulfilled, Resume Fulfilled, Resume Fulfilled]"

text \<open>
  Frame 0 becomes ready, is rendered and is submitted; \<open>export()\<close> then waits for frame 1
  (of two) to become ready.
\<close>

definition first_frame_events :: "event list" where
  "first_frame_events = setup_events @ [Resume Fulfilled, Resume Fulfilled]"

text \<open>The encoder then reports an error for the frame it holds.\<close>

definition encode_error_events :: "bool \<Rightarrow> event list" where
  "encode_error_events closes = first_frame_events @ [EncoderError ''encode failed'' closes]"

text \<open>
  After an error that closed the encoder: frame 1 becomes ready and is rendered, the loop
  ends, the promises of \<open>Promise.all\<close> and of \<open>finalize()\<close> are fulfilled.
\<close>

definition dropped_frame_events :: "event list" where
  "dropped_frame_events =
     encode_error_events True @ [Resume Fulfilled, Resume Fulfilled, Resume Fulfilled, Resume Fulfilled]"

text \<open>\<open>cancel()\<close> is called while \<open>export()\<close> waits for frame 1; the frame then becomes ready.\<close>

definition cancel_in_seek_events :: "event list" where
  "cancel_in_seek_events = first_frame_events @ [Cancel, Resume Fulfilled]"

text \<open>
  An encoder that reports a decoder configuration with its own colour space on every chunk:
  the chunk of frame 0 is emitted, frame 1 is processed, and its chunk is emitted while
  \<open>export()\<close> waits for \<open>flush()\<close>.
\<close>

definition smpte170m :: color_space where
  "smpte170m = \<lparr>primaries = ''smpte170m'', transfer = ''smpte170m'', matrix = ''smpte170m'',
                 fullRange = False\<rparr>"

definition encoder_meta :: "chunk_metadata option" where
  "encoder_meta =
     Some \<lparr>decoderConfig = Some
            \<lparr>codec = ''avc1.64001f'', codedWidth = Some 640, codedHeight = Some 360,
             description = Some [1, 2, 3], colorSpace = Some smpte170m\<rparr>\<rparr>"

text \<open>
  A long video without seeking and without a progress callback, whose encoder emits
  nothing: after 120 submissions the loop is in its wait; then the encoder reports an error
  and closes, or \<open>cancel()\<close> is called.
\<close>

definition cfg_quiet :: export_config where
  "cfg_quiet = cfg0\<lparr>onProgress := False\<rparr>"

definition env_long :: environment where
  "env_long = env0\<lparr>video_duration := 200, needs_seek := (\<lambda>i. False)\<rparr>"

definition frames_events :: "nat \<Rightarrow> event list" where
  "frames_events n = setup_events @ Resume Fulfilled # replicate n (Resume Fulfilled)"

definition error_in_wait_events :: "event list" where
  "error_in_wait_events = frames_events 120 @ [Resume Fulfilled, EncoderError ''encode failed'' True]"

definition cancel_in_wait_events :: "event list" where
  "cancel_in_wait_events = frames_events 120 @ [Resume Fulfilled, Cancel]"

text \<open>
  Both chunks of a two-frame export have been emitted and written, and \<open>flush()\<close> is
  fulfilled: \<open>export()\<close> waits for \<open>Promise.all\<close>.
\<close>

definition drained_events :: "event list" where
  "drained_events =
     first_frame_events @
     [EncoderOutput [0] None, Resume Fulfilled, Resume Fulfilled, EncoderOutput [1] None,
      Resume Fulfilled, MuxSettled 0 Fulfilled, MuxSettled 1 (Rejected ''disk full'')]"

definition two_chunk_events :: "event list" where
  "two_chunk_events =
     first_frame_events @
     [EncoderOutput [0] encoder_meta, Resume Fulfilled, Resume Fulfilled,
      EncoderOutput [1] encoder_meta]"

section \<open>Properties of the zoom transform\<close>

lemmas transform_locals =
  focusStagePxX_def focusStagePxY_def stageCenterX_def stageCenterY_def actualScale_def
  focusInVideoSpaceX_def focusInVideoSpaceY_def newVideoX_def newVideoY_def
  cropEndX_def cropEndY_def minVideoX_def maxVideoX_def minVideoY_def maxVideoY_def

lemma applyZoomTransform_pos_x:
  "\<not> degenerate p \<Longrightarrow> sprite_pos_x (applyZoomTransform p st) = clampedVideoX p"
  by (simp add: applyZoomTransform_def Let_def split: option.split)

lemma applyZoomTransform_pos_y:
  "\<not> degenerate p \<Longrightarrow> sprite_pos_y (applyZoomTransform p st) = clampedVideoY p"
  by (simp add: applyZoomTransform_def Let_def split: option.split)

text \<open>
  C5, as stated, fails: a negative stage width is non-positive, yet the guard of the source
  tests \<open>!stageSize.width\<close>, which a negative number does not satisfy, and the function
  goes on to write the sprite's scale.
\<close>

theorem applyZoomTransform_negative_stage_not_noop:
  "spec_non_positive_geometry geom_neg \<and> applyZoomTransform geom_neg st0 \<noteq> st0"
  by (simp add: spec_non_positive_geometry_def geom_neg_def geom0_def st0_def
      applyZoomTransform_def degenerate_def Let_def actualScale_def)

text \<open>
  C5 (amended): whenever a dimension of the stage size or of the video size is zero, or the
  base scale or a dimension of the base mask is non-positive, applyZoomTransform returns
  without raising and leaves the sprite's scale and position, the mask graphics and the
  blur filter as they were.
\<close>

theorem applyZoomTransform_guard_noop:
  assumes "stage_width p = 0 \<or> stage_height p = 0 \<or> video_width p = 0 \<or> video_height p = 0
           \<or> baseScale p \<le> 0 \<or> baseMask_width p \<le> 0 \<or> baseMask_height p \<le> 0"
  shows "applyZoomTransform p st = st"
  using assms by (simp add: applyZoomTransform_def degenerate_def)

theorem applyZoomTransform_guard_noop_witness:
  "stage_width (geom0\<lparr>stage_width := 0\<rparr>) = 0 \<and>
   applyZoomTransform (geom0\<lparr>stage_width := 0\<rparr>) st0 = st0 \<and>
   baseMask_height (geom0\<lparr>baseMask_height := -3\<rparr>) \<le> 0 \<and>
   applyZoomTransform (geom0\<lparr>baseMask_height := -3\<rparr>) st0 = st0"
  using applyZoomTransform_guard_noop [of "geom0\<lparr>stage_width := 0\<rparr>" st0]
        applyZoomTransform_guard_noop [of "geom0\<lparr>baseMask_height := -3\<rparr>" st0]
  by simp

text \<open>
  C6: for every geometry that passes the guard, the position computed before clamping is,
  on each axis, \<open>stageCenter - (focusPx - baseOffset) * zoomScale\<close> with
  \<open>focusPx = baseMask.origin + focus * stageSize\<close> and
  \<open>stageCenter = baseMask.origin + stageSize / 2\<close>; it is the position written to the
  sprite on every axis that is not clamped, and it does not depend on the base scale: the
  offset is multiplied by \<open>zoomScale\<close> only.
\<close>

theorem unclamped_position_formula:
  assumes "\<not> degenerate p"
  shows "newVideoX p =
           (baseMask_x p + stage_width p / 2)
           - ((baseMask_x p + focusX p * stage_width p) - baseOffset_x p) * zoomScale p
       \<and> newVideoY p =
           (baseMask_y p + stage_height p / 2)
           - ((baseMask_y p + focusY p * stage_height p) - baseOffset_y p) * zoomScale p
       \<and> (maxVideoX p < minVideoX p \<longrightarrow>
            sprite_pos_x (applyZoomTransform p st) = newVideoX p)
       \<and> (maxVideoY p < minVideoY p \<longrightarrow>
            sprite_pos_y (applyZoomTransform p st) = newVideoY p)
       \<and> newVideoX (p\<lparr>baseScale := b\<rparr>) = newVideoX p
       \<and> newVideoY (p\<lparr>baseScale := b\<rparr>) = newVideoY p"
  using assms
  by (simp add: applyZoomTransform_pos_x applyZoomTransform_pos_y
      clampedVideoX_def clampedVideoY_def
      newVideoX_def newVideoY_def stageCenterX_def stageCenterY_def focusInVideoSpaceX_def
      focusInVideoSpaceY_def focusStagePxX_def focusStagePxY_def)

theorem unclamped_position_formula_witness:
  "\<not> degenerate geom_zoom
   \<and> maxVideoX geom_zoom < minVideoX geom_zoom
   \<and> maxVideoY geom_zoom < minVideoY geom_zoom
   \<and> sprite_pos_x (applyZoomTransform geom_zoom st0) = 90
   \<and> sprite_pos_y (applyZoomTransform geom_zoom st0) = 125 / 4
   \<and> newVideoX (geom_zoom\<lparr>baseScale := 7\<rparr>) = 90"
proof -
  have nd: "\<not> degenerate geom_zoom"
    by (simp add: degenerate_def geom_zoom_def geom0_def)
  have mx: "maxVideoX geom_zoom < minVideoX geom_zoom"
    by (simp add: geom_zoom_def geom0_def transform_locals)
  have my: "maxVideoY geom_zoom < minVideoY geom_zoom"
    by (simp add: geom_zoom_def geom0_def transform_locals)
  from unclamped_position_formula [OF nd, of st0 7] nd mx my show ?thesis
    by (simp add: geom_zoom_def geom0_def)
qed

text \<open>
  C7: for every geometry that passes the guard and on each axis by itself, with
  \<open>min = maskOrigin + maskSize - cropEnd * actualScale\<close> and
  \<open>max = maskOrigin - cropStart * actualScale\<close>: if \<open>min > max\<close> the position written
  to the sprite is the unclamped candidate, and otherwise it lies in \<open>[min, max]\<close>, both
  ends included.
\<close>

theorem clamped_position_range:
  assumes "\<not> degenerate p"
  shows "(let st' = applyZoomTransform p st;
              lo = baseMask_x p + baseMask_width p
                   - (cropOffset_x p + video_width p) * (baseScale p * zoomScale p);
              hi = baseMask_x p - cropOffset_x p * (baseScale p * zoomScale p)
          in (hi < lo \<longrightarrow> sprite_pos_x st' = newVideoX p) \<and>
             (lo \<le> hi \<longrightarrow> lo \<le> sprite_pos_x st' \<and> sprite_pos_x st' \<le> hi))
       \<and> (let st' = applyZoomTransform p st;
              lo = baseMask_y p + baseMask_height p
                   - (cropOffset_y p + video_height p) * (baseScale p * zoomScale p);
              hi = baseMask_y p - cropOffset_y p * (baseScale p * zoomScale p)
          in (hi < lo \<longrightarrow> sprite_pos_y st' = newVideoY p) \<and>
             (lo \<le> hi \<longrightarrow> lo \<le> sprite_pos_y st' \<and> sprite_pos_y st' \<le> hi))"
  using assms
  by (simp add: Let_def applyZoomTransform_pos_x applyZoomTransform_pos_y
      clampedVideoX_def clampedVideoY_def minVideoX_def maxVideoX_def minVideoY_def
      maxVideoY_def cropEndX_def cropEndY_def actualScale_def)

theorem clamped_position_range_witness:
  "\<not> degenerate geom_clamp
   \<and> newVideoX geom_clamp = 100
   \<and> -200 \<le> sprite_pos_x (applyZoomTransform geom_clamp st0)
   \<and> sprite_pos_x (applyZoomTransform geom_clamp st0) \<le> 0
   \<and> newVideoY geom_clamp = -100
   \<and> sprite_pos_y (applyZoomTransform geom_clamp st0) = -100"
proof -
  have nd: "\<not> degenerate geom_clamp"
    by (simp add: degenerate_def geom_clamp_def geom0_def)
  have nx: "newVideoX geom_clamp = 100" and ny: "newVideoY geom_clamp = -100"
    by (simp_all add: geom_clamp_def geom0_def transform_locals)
  from clamped_position_range [OF nd, of st0] nd nx ny show ?thesis
    by (simp add: Let_def geom_clamp_def geom0_def)
qed

text \<open>
  C9, as stated, fails: \<open>geom_bad\<close> is a valid geometry (every size and the base scale are
  positive) whose base offset does not centre the video in the mask. With
  \<open>zoomScale = 1\<close> and the focus at \<open>(0.5, 0.5)\<close> the sprite is placed at the base
  offset, so the video's centre is at 50 while the mask's centre is at 100.
\<close>

theorem identity_zoom_not_centered:
  "\<not> degenerate geom_bad \<and> \<not> spec_non_positive_geometry geom_bad
   \<and> zoomScale geom_bad = 1 \<and> focusX geom_bad = 1/2 \<and> focusY geom_bad = 1/2
   \<and> sprite_pos_x (applyZoomTransform geom_bad st0) = 0
   \<and> videoCenterX geom_bad (sprite_pos_x (applyZoomTransform geom_bad st0)) = 50
   \<and> maskCenterX geom_bad = 100
   \<and> \<not> centers_aligned geom_bad (applyZoomTransform geom_bad st0)"
  by (simp add: geom_bad_def geom0_def st0_def degenerate_def spec_non_positive_geometry_def
      centers_aligned_def applyZoomTransform_def Let_def clampedVideoX_def clampedVideoY_def
      videoCenterX_def videoCenterY_def maskCenterX_def maskCenterY_def transform_locals)

text \<open>
  C9 (amended): for every geometry that passes the guard and whose base layout has the
  video's centre on the mask's centre (the video drawn at the base offset and base scale),
  the transform with \<open>zoomScale = 1\<close> and \<open>focusX = focusY = 0.5\<close> places the sprite
  at the base offset on both axes, clamping included, and so keeps the video's centre
  aligned with the mask's centre.
\<close>

theorem identity_zoom_keeps_centered:
  assumes "\<not> degenerate p"
    and "zoomScale p = 1" and "focusX p = 1/2" and "focusY p = 1/2"
    and "videoCenterX p (baseOffset_x p) = maskCenterX p"
    and "videoCenterY p (baseOffset_y p) = maskCenterY p"
  shows "sprite_pos_x (applyZoomTransform p st) = baseOffset_x p
       \<and> sprite_pos_y (applyZoomTransform p st) = baseOffset_y p
       \<and> centers_aligned p (applyZoomTransform p st)"
proof -
  have ux: "newVideoX p = baseOffset_x p" and uy: "newVideoY p = baseOffset_y p"
    using assms(2-4)
    by (simp_all add: newVideoX_def newVideoY_def stageCenterX_def stageCenterY_def
        focusInVideoSpaceX_def focusInVideoSpaceY_def focusStagePxX_def focusStagePxY_def)
  have cx: "clampedVideoX p = baseOffset_x p"
    using assms(5) ux
    by (simp add: clampedVideoX_def minVideoX_def maxVideoX_def cropEndX_def
        videoCenterX_def maskCenterX_def algebra_simps)
  have cy: "clampedVideoY p = baseOffset_y p"
    using assms(6) uy
    by (simp add: clampedVideoY_def minVideoY_def maxVideoY_def cropEndY_def
        videoCenterY_def maskCenterY_def algebra_simps)
  show ?thesis
    using assms(1,5,6) cx cy
    by (simp add: applyZoomTransform_pos_x applyZoomTransform_pos_y centers_aligned_def)
qed

theorem identity_zoom_keeps_centered_witness:
  "\<not> degenerate geom0 \<and> centers_aligned geom0 (applyZoomTransform geom0 st0)
   \<and> sprite_pos_x (applyZoomTransform geom0 st0) = 0"
proof -
  have nd: "\<not> degenerate geom0"
    by (simp add: degenerate_def geom0_def)
  have ax: "videoCenterX geom0 (baseOffset_x geom0) = maskCenterX geom0"
    by (simp add: videoCenterX_def maskCenterX_def actualScale_def geom0_def)
  have ay: "videoCenterY geom0 (baseOffset_y geom0) = maskCenterY geom0"
    by (simp add: videoCenterY_def maskCenterY_def actualScale_def geom0_def)
  from identity_zoom_keeps_centered [OF nd _ _ _ ax ay, of st0] nd show ?thesis
    by (simp add: geom0_def)
qed

section \<open>Properties of the exporter\<close>

lemma run_append:
  "run env cfg s (xs @ ys) =
     (case run env cfg s xs of None \<Rightarrow> None | Some s' \<Rightarrow> run env cfg s' ys)"
  by (induction xs arbitrary: s) (auto split: option.splits)

lemma reachable_run:
  "reachable env cfg s \<Longrightarrow> run env cfg s evs = Some s' \<Longrightarrow> reachable env cfg s'"
proof (induction evs arbitrary: s)
  case Nil
  then show ?case by simp
next
  case (Cons ev evs)
  then show ?case
    by (auto split: option.splits intro: reachable.turn)
qed

subsection \<open>The fields after an exit\<close>

lemma emit_fields [simp]:
  "this (emit as s) = this s"
  "pc (emit as s) = pc s"
  "frameIndex (emit as s) = frameIndex s"
  "totalFrames (emit as s) = totalFrames s"
  "closure_videoDescription (emit as s) = closure_videoDescription s"
  "mux_pending (emit as s) = mux_pending s"
  "next_promise (emit as s) = next_promise s"
  "trace (emit as s) = trace s @ as"
  by (simp_all add: emit_def)

lemma cleanup_fields [simp]:
  "encoder (this (cleanup s)) = None"
  "decoder (this (cleanup s)) = None"
  "renderer (this (cleanup s)) = None"
  "muxer (this (cleanup s)) = None"
  "encodeQueue (this (cleanup s)) = 0"
  "muxingPromises (this (cleanup s)) = []"
  "chunkCount (this (cleanup s)) = 0"
  "videoDescription (this (cleanup s)) = None"
  "videoColorSpace (this (cleanup s)) = None"
  "cancelled (this (cleanup s)) = cancelled (this s)"
  "pc (cleanup s) = pc s"
  "frameIndex (cleanup s) = frameIndex s"
  "totalFrames (cleanup s) = totalFrames s"
  "closure_videoDescription (cleanup s) = closure_videoDescription s"
  "mux_pending (cleanup s) = mux_pending s"
  "next_promise (cleanup s) = next_promise s"
  by (simp_all add: cleanup_def Let_def)

lemma return_result_fields [simp]:
  "encoder (this (return_result s r)) = None"
  "decoder (this (return_result s r)) = None"
  "renderer (this (return_result s r)) = None"
  "muxer (this (return_result s r)) = None"
  "encodeQueue (this (return_result s r)) = 0"
  "muxingPromises (this (return_result s r)) = []"
  "chunkCount (this (return_result s r)) = 0"
  "videoDescription (this (return_result s r)) = None"
  "videoColorSpace (this (return_result s r)) = None"
  "cancelled (this (return_result s r)) = cancelled (this s)"
  "pc (return_result s r) = Returned r"
  "frameIndex (return_result s r) = frameIndex s"
  "totalFrames (return_result s r) = totalFrames s"
  "closure_videoDescription (return_result s r) = closure_videoDescription s"
  "mux_pending (return_result s r) = mux_pending s"
  "next_promise (return_result s r) = next_promise s"
  by (simp_all add: return_result_def)

lemma throw_fields [simp]:
  "encoder (this (throw s m)) = None"
  "decoder (this (throw s m)) = None"
  "renderer (this (throw s m)) = None"
  "muxer (this (throw s m)) = None"
  "encodeQueue (this (throw s m)) = 0"
  "muxingPromises (this (throw s m)) = []"
  "chunkCount (this (throw s m)) = 0"
  "videoDescription (this (throw s m)) = None"
  "videoColorSpace (this (throw s m)) = None"
  "cancelled (this (throw s m)) = cancelled (this s)"
  "pc (throw s m) = Returned \<lparr>success = False, blob = None, error = Some m\<rparr>"
  "frameIndex (throw s m) = frameIndex s"
  "totalFrames (throw s m) = totalFrames s"
  "closure_videoDescription (throw s m) = closure_videoDescription s"
  "mux_pending (throw s m) = mux_pending s"
  "next_promise (throw s m) = next_promise s"
  by (simp_all add: throw_def)

lemma cancel_fields [simp]:
  "encoder (this (cancel s)) = None"
  "decoder (this (cancel s)) = None"
  "renderer (this (cancel s)) = None"
  "muxer (this (cancel s)) = None"
  "encodeQueue (this (cancel s)) = 0"
  "muxingPromises (this (cancel s)) = []"
  "chunkCount (this (cancel s)) = 0"
  "videoDescription (this (cancel s)) = None"
  "videoColorSpace (this (cancel s)) = None"
  "cancelled (this (cancel s)) = True"
  "pc (cancel s) = pc s"
  "frameIndex (cancel s) = frameIndex s"
  "totalFrames (cancel s) = totalFrames s"
  "closure_videoDescription (cancel s) = closure_videoDescription s"
  "mux_pending (cancel s) = mux_pending s"
  "next_promise (cancel s) = next_promise s"
  by (simp_all add: cancel_def)

lemma frames_in_flight_update [simp]:
  "frames_in_flight (s\<lparr>pc := p\<rparr>) = frames_in_flight s"
  "frames_in_flight (s\<lparr>frameIndex := i\<rparr>) = frames_in_flight s"
  "frames_in_flight (s\<lparr>totalFrames := n\<rparr>) = frames_in_flight s"
  "frames_in_flight (s\<lparr>mux_pending := M\<rparr>) = frames_in_flight s"
  "frames_in_flight (s\<lparr>trace := tr\<rparr>) = frames_in_flight s"
  "frames_in_flight (emit as s) = frames_in_flight s"
  "frames_in_flight (cleanup s) = 0"
  by (simp_all add: frames_in_flight_def)

lemma frames_in_flight_encoder:
  "frames_in_flight (s\<lparr>this := (this s)\<lparr>encoder := Some e\<rparr>\<rparr>) = pending e"
  "encoder (this s) = None \<Longrightarrow> frames_in_flight s = 0"
  "encoder (this s) = Some e \<Longrightarrow> frames_in_flight s = pending e"
  by (simp_all add: frames_in_flight_def)

lemma loop_inv_queue_inv: "loop_inv s \<Longrightarrow> queue_inv s"
  by (simp add: loop_inv_def queue_inv_def split: if_splits)

lemma queue_inv_loop_inv: "queue_inv s \<Longrightarrow> loop_pc (pc s) \<Longrightarrow> loop_inv s"
  by (auto simp: loop_inv_def queue_inv_def loop_pc_def)

lemma loop_inv_pc [simp]: "loop_inv (s\<lparr>pc := p\<rparr>) = loop_inv s"
  by (simp add: loop_inv_def)

lemma loop_inv_emit [simp]: "loop_inv (emit as s) = loop_inv s"
  by (simp add: loop_inv_def)

lemma queue_inv_cleanup_at: "\<not> live_pc p \<Longrightarrow> queue_inv ((cleanup s)\<lparr>pc := p\<rparr>)"
  by (simp add: queue_inv_def MAX_ENCODE_QUEUE_def)

lemma queue_inv_return [simp]: "queue_inv (return_result s r)"
  by (simp add: return_result_def queue_inv_cleanup_at)

lemma queue_inv_throw [simp]: "queue_inv (throw s m)"
  by (simp add: throw_def)

lemma queue_inv_cancel [simp]: "queue_inv (cancel s)"
  by (simp add: queue_inv_def MAX_ENCODE_QUEUE_def frames_in_flight_def)

lemma loop_inv_at: "loop_inv s \<Longrightarrow> queue_inv (s\<lparr>pc := p\<rparr>)"
  by (rule loop_inv_queue_inv) simp

lemma queue_inv_after_loop: "loop_inv s \<Longrightarrow> queue_inv (after_loop s)"
  by (simp add: after_loop_def await_muxing_def loop_inv_at split: option.split)

lemma queue_inv_render_frame: "loop_inv s \<Longrightarrow> queue_inv (render_frame s)"
  by (simp add: render_frame_def loop_inv_at split: option.split)

lemma queue_inv_loop_head: "loop_inv s \<Longrightarrow> queue_inv (loop_head env s)"
  by (simp add: loop_head_def Let_def queue_inv_after_loop queue_inv_render_frame loop_inv_at)

lemma loop_inv_submit_frame:
  assumes "loop_inv s"
    and "\<not> cancelled (this s) \<Longrightarrow> encodeQueue (this s) < MAX_ENCODE_QUEUE"
  shows "loop_inv (submit_frame cfg s)"
proof (cases "cancelled (this s)")
  case True
  with assms(1) have "encoder (this s) = None" by (simp add: loop_inv_def)
  with True assms(1) show ?thesis
    by (simp add: submit_frame_def Let_def loop_inv_def frames_in_flight_def emit_def)
next
  case False
  with assms(2) have "encodeQueue (this s) < MAX_ENCODE_QUEUE" by simp
  with False assms(1) show ?thesis
    by (auto simp: submit_frame_def Let_def loop_inv_def frames_in_flight_def emit_def
             split: option.splits)
qed

lemma queue_inv_backpressure:
  assumes "loop_inv s"
  shows "queue_inv (backpressure env cfg s)"
proof (cases "encodeQueue (this s) \<ge> MAX_ENCODE_QUEUE \<and> \<not> cancelled (this s)")
  case True
  then have "backpressure env cfg s = s\<lparr>pc := AwaitBackpressure\<rparr>"
    unfolding backpressure_def by (rule if_P)
  with assms show ?thesis by (simp add: loop_inv_at)
next
  case False
  then have eq: "backpressure env cfg s = loop_head env (submit_frame cfg s)"
    unfolding backpressure_def by (rule if_not_P)
  from False have "\<not> cancelled (this s) \<Longrightarrow> encodeQueue (this s) < MAX_ENCODE_QUEUE"
    by auto
  with assms have "loop_inv (submit_frame cfg s)"
    by (rule loop_inv_submit_frame)
  then have "queue_inv (loop_head env (submit_frame cfg s))"
    by (rule queue_inv_loop_head)
  with eq show ?thesis by simp
qed

subsection \<open>resume, one program point at a time\<close>

lemma resume_LoadVideo:
  "pc s = AwaitLoadVideo \<Longrightarrow>
   resume env cfg s outcome =
     (case outcome of
        Rejected m \<Rightarrow> Some (throw s m)
      | Fulfilled \<Rightarrow> Some (s\<lparr>this := (this s)\<lparr>renderer := Some ()\<rparr>, pc := AwaitRendererInit\<rparr>))"
  by (simp add: resume_def)

lemma resume_RendererInit:
  "pc s = AwaitRendererInit \<Longrightarrow>
   resume env cfg s outcome =
     (case outcome of
        Rejected m \<Rightarrow> Some (throw s m)
      | Fulfilled \<Rightarrow>
          Some ((fst (initializeEncoder env
                        (s\<lparr>totalFrames := \<lceil>video_duration env * frameRate cfg\<rceil>\<rparr>)))
                 \<lparr>pc := AwaitInitEncoder
                    (snd (initializeEncoder env
                            (s\<lparr>totalFrames := \<lceil>video_duration env * frameRate cfg\<rceil>\<rparr>)))\<rparr>))"
  by (simp add: resume_def Let_def split_beta split: settle.split)

lemma resume_InitEncoder:
  "pc s = AwaitInitEncoder failure \<Longrightarrow>
   resume env cfg s outcome =
     (case failure of
        Some m \<Rightarrow> if outcome = Rejected m then Some (throw s m) else None
      | None \<Rightarrow>
          if outcome = Fulfilled
          then Some (s\<lparr>this := (this s)\<lparr>muxer := Some ()\<rparr>, pc := AwaitMuxerInit\<rparr>)
          else None)"
  by (simp add: resume_def)

lemma resume_MuxerInit:
  "pc s = AwaitMuxerInit \<Longrightarrow>
   resume env cfg s outcome =
     (case outcome of
        Rejected m \<Rightarrow> Some (throw s m)
      | Fulfilled \<Rightarrow>
          (case decoder (this s) of
             None \<Rightarrow> Some (throw s (null_call ''getVideoElement''))
           | Some _ \<Rightarrow>
               if \<not> video_element_available env
               then Some (throw s ''Video element not available'')
               else Some (loop_head env (s\<lparr>frameIndex := 0\<rparr>))))"
  by (simp add: resume_def)

lemma resume_FrameReady:
  "pc s = AwaitFrameReady \<Longrightarrow>
   resume env cfg s outcome =
     (case outcome of Rejected _ \<Rightarrow> None | Fulfilled \<Rightarrow> Some (render_frame s))"
  by (simp add: resume_def)

lemma resume_RenderFrame:
  "pc s = AwaitRenderFrame \<Longrightarrow>
   resume env cfg s outcome =
     (case outcome of
        Rejected m \<Rightarrow> Some (throw s m)
      | Fulfilled \<Rightarrow>
          (case renderer (this s) of
             None \<Rightarrow> Some (throw s (null_call ''getCanvas''))
           | Some _ \<Rightarrow> Some (backpressure env cfg s)))"
  by (simp add: resume_def)

lemma resume_Backpressure:
  "pc s = AwaitBackpressure \<Longrightarrow>
   resume env cfg s outcome =
     (case outcome of Rejected _ \<Rightarrow> None | Fulfilled \<Rightarrow> Some (backpressure env cfg s))"
  by (simp add: resume_def)

lemma resume_Flush:
  "pc s = AwaitFlush \<Longrightarrow>
   resume env cfg s outcome =
     (case outcome of
        Rejected m \<Rightarrow> Some (throw s m)
      | Fulfilled \<Rightarrow> if outputs_pending s then None else Some (await_muxing s))"
  by (simp add: resume_def)

lemma resume_MuxAll:
  "pc s = AwaitMuxAll promises \<Longrightarrow>
   resume env cfg s outcome =
     (case outcome of
        Rejected _ \<Rightarrow> None
      | Fulfilled \<Rightarrow>
          if \<exists>p \<in> set promises. p \<in> mux_pending s then None
          else (case muxer (this s) of
                  None \<Rightarrow> Some (throw s (null_call ''finalize''))
                | Some _ \<Rightarrow> Some ((emit [Finalize] s)\<lparr>pc := AwaitFinalize\<rparr>)))"
  by (simp add: resume_def)

lemma resume_Finalize:
  "pc s = AwaitFinalize \<Longrightarrow>
   resume env cfg s outcome =
     (case outcome of
        Rejected m \<Rightarrow> Some (throw s m)
      | Fulfilled \<Rightarrow>
          Some (return_result s
                  \<lparr>success = True, blob = Some (muxed (trace s)), error = None\<rparr>))"
  by (simp add: resume_def)

lemma resume_Returned: "pc s = Returned r \<Longrightarrow> resume env cfg s outcome = None"
  by (simp add: resume_def)

lemmas resume_at =
  resume_LoadVideo resume_RendererInit resume_InitEncoder resume_MuxerInit resume_FrameReady
  resume_RenderFrame resume_Backpressure resume_Flush resume_MuxAll resume_Finalize
  resume_Returned

lemma capture_decoder_config_fields:
  "encodeQueue (this (capture_decoder_config s meta)) = encodeQueue (this s)"
  "cancelled (this (capture_decoder_config s meta)) = cancelled (this s)"
  "decoder (this (capture_decoder_config s meta)) = decoder (this s)"
  "renderer (this (capture_decoder_config s meta)) = renderer (this s)"
  "encoder (this (capture_decoder_config s meta)) = encoder (this s)"
  "muxer (this (capture_decoder_config s meta)) = muxer (this s)"
  "chunkCount (this (capture_decoder_config s meta)) = chunkCount (this s)"
  "muxingPromises (this (capture_decoder_config s meta)) = muxingPromises (this s)"
  "pc (capture_decoder_config s meta) = pc s"
  "frameIndex (capture_decoder_config s meta) = frameIndex s"
  "totalFrames (capture_decoder_config s meta) = totalFrames s"
  "mux_pending (capture_decoder_config s meta) = mux_pending s"
  "next_promise (capture_decoder_config s meta) = next_promise s"
  "trace (capture_decoder_config s meta) = trace s"
  by (simp_all add: capture_decoder_config_def Let_def split: option.split)

lemma start_muxing_fields:
  "this (start_muxing cfg s first chunk meta) = this s"
  "pc (start_muxing cfg s first chunk meta) = pc s"
  "frameIndex (start_muxing cfg s first chunk meta) = frameIndex s"
  "totalFrames (start_muxing cfg s first chunk meta) = totalFrames s"
  "next_promise (start_muxing cfg s first chunk meta) = next_promise s"
  "closure_videoDescription (start_muxing cfg s first chunk meta) = closure_videoDescription s"
  by (simp_all add: start_muxing_def Let_def emit_def split: option.split)

lemma output_callback_fields:
  "encodeQueue (this (output_callback cfg s chunk meta)) = encodeQueue (this s) - 1"
  "cancelled (this (output_callback cfg s chunk meta)) = cancelled (this s)"
  "decoder (this (output_callback cfg s chunk meta)) = decoder (this s)"
  "renderer (this (output_callback cfg s chunk meta)) = renderer (this s)"
  "encoder (this (output_callback cfg s chunk meta)) = encoder (this s)"
  "muxer (this (output_callback cfg s chunk meta)) = muxer (this s)"
  "chunkCount (this (output_callback cfg s chunk meta)) = chunkCount (this s) + 1"
  "muxingPromises (this (output_callback cfg s chunk meta)) = muxingPromises (this s) @ [next_promise s]"
  "pc (output_callback cfg s chunk meta) = pc s"
  "frameIndex (output_callback cfg s chunk meta) = frameIndex s"
  "totalFrames (output_callback cfg s chunk meta) = totalFrames s"
  "next_promise (output_callback cfg s chunk meta) = next_promise s + 1"
  by (simp_all add: output_callback_def Let_def start_muxing_fields capture_decoder_config_fields)

lemma error_callback_fields:
  "this (error_callback s msg) = this s"
  "pc (error_callback s msg) = pc s"
  "frameIndex (error_callback s msg) = frameIndex s"
  "totalFrames (error_callback s msg) = totalFrames s"
  "mux_pending (error_callback s msg) = mux_pending s"
  by (simp_all add: error_callback_def emit_def)

lemma queue_inv_begin: "queue_inv (export_begin ex0)"
  by (simp add: queue_inv_def export_begin_def cleanup_def emit_def Let_def MAX_ENCODE_QUEUE_def
      frames_in_flight_def)

lemma queue_inv_initializeEncoder:
  assumes "queue_inv s" and "pc s = AwaitRendererInit"
  shows "queue_inv ((fst (initializeEncoder env (s\<lparr>totalFrames := n\<rparr>)))
                      \<lparr>pc := AwaitInitEncoder failure\<rparr>)"
  using assms
  by (simp add: queue_inv_def initializeEncoder_def Let_def emit_def MAX_ENCODE_QUEUE_def
      loop_pc_def frames_in_flight_def split: option.split)

lemma queue_inv_resume:
  assumes inv: "queue_inv s" and res: "resume env cfg s outcome = Some s'"
  shows "queue_inv s'"
proof (cases "pc s")
  case AwaitLoadVideo
  show ?thesis
  proof (cases outcome)
    case Fulfilled
    with res AwaitLoadVideo
    have "s' = s\<lparr>this := (this s)\<lparr>renderer := Some ()\<rparr>, pc := AwaitRendererInit\<rparr>"
      by (simp add: resume_at)
    with inv show ?thesis by (simp add: queue_inv_def loop_pc_def frames_in_flight_def)
  next
    case (Rejected m)
    with res AwaitLoadVideo show ?thesis by (auto simp: resume_at)
  qed
next
  case AwaitRendererInit
  show ?thesis
  proof (cases outcome)
    case Fulfilled
    with res AwaitRendererInit inv show ?thesis
      by (auto simp: resume_at queue_inv_initializeEncoder)
  next
    case (Rejected m)
    with res AwaitRendererInit show ?thesis by (auto simp: resume_at)
  qed
next
  case (AwaitInitEncoder failure)
  show ?thesis
  proof (cases failure)
    case None
    with res AwaitInitEncoder
    have "s' = s\<lparr>this := (this s)\<lparr>muxer := Some ()\<rparr>, pc := AwaitMuxerInit\<rparr>"
      by (simp add: resume_at split: if_splits)
    with inv AwaitInitEncoder show ?thesis
      by (simp add: queue_inv_def loop_pc_def frames_in_flight_def)
  next
    case (Some m)
    with res AwaitInitEncoder show ?thesis by (auto simp: resume_at split: if_splits)
  qed
next
  case AwaitMuxerInit
  show ?thesis
  proof (cases "outcome = Fulfilled \<and> decoder (this s) \<noteq> None \<and> video_element_available env")
    case True
    with inv AwaitMuxerInit have "loop_inv (s\<lparr>frameIndex := 0\<rparr>)"
      by (auto simp: queue_inv_def loop_inv_def)
    then have "queue_inv (loop_head env (s\<lparr>frameIndex := 0\<rparr>))"
      by (rule queue_inv_loop_head)
    with res AwaitMuxerInit True show ?thesis
      by (auto simp: resume_at)
  next
    case False
    with res AwaitMuxerInit show ?thesis
      by (cases outcome) (auto simp: resume_at split: option.splits if_splits)
  qed
next
  case AwaitFrameReady
  with inv have "loop_inv s" by (simp add: queue_inv_loop_inv loop_pc_def)
  then have "queue_inv (render_frame s)" by (rule queue_inv_render_frame)
  with res AwaitFrameReady show ?thesis
    by (cases outcome) (auto simp: resume_at)
next
  case AwaitRenderFrame
  with inv have "loop_inv s" by (simp add: queue_inv_loop_inv loop_pc_def)
  then have "queue_inv (backpressure env cfg s)" by (rule queue_inv_backpressure)
  with res AwaitRenderFrame show ?thesis
    by (cases outcome) (auto simp: resume_at split: option.splits)
next
  case AwaitBackpressure
  with inv have "loop_inv s" by (simp add: queue_inv_loop_inv loop_pc_def)
  then have "queue_inv (backpressure env cfg s)" by (rule queue_inv_backpressure)
  with res AwaitBackpressure show ?thesis
    by (cases outcome) (auto simp: resume_at)
next
  case AwaitFlush
  show ?thesis
  proof (cases outcome)
    case Fulfilled
    with res AwaitFlush have "s' = await_muxing s"
      by (simp add: resume_at split: if_splits)
    with inv AwaitFlush show ?thesis by (simp add: queue_inv_def await_muxing_def loop_pc_def)
  next
    case (Rejected m)
    with res AwaitFlush show ?thesis by (auto simp: resume_at)
  qed
next
  case (AwaitMuxAll promises)
  show ?thesis
  proof (cases "muxer (this s)")
    case None
    with res AwaitMuxAll show ?thesis
      by (cases outcome) (auto simp: resume_at split: if_splits)
  next
    case (Some u)
    with res AwaitMuxAll have "s' = (emit [Finalize] s)\<lparr>pc := AwaitFinalize\<rparr>"
      by (cases outcome) (auto simp: resume_at split: if_splits)
    with inv AwaitMuxAll show ?thesis by (simp add: queue_inv_def emit_def loop_pc_def)
  qed
next
  case AwaitFinalize
  with res show ?thesis by (cases outcome) (auto simp: resume_at)
next
  case (Returned r)
  with res show ?thesis by (simp add: resume_at)
qed

lemma queue_inv_pending:
  "queue_inv s \<Longrightarrow> encoder (this s) = Some e \<Longrightarrow> int (pending e) \<le> encodeQueue (this s)"
  by (simp add: queue_inv_def frames_in_flight_def)

lemma queue_inv_same:
  assumes "queue_inv s" and "pc t = pc s"
    and "cancelled (this t) = cancelled (this s)" and "decoder (this t) = decoder (this s)"
    and "renderer (this t) = renderer (this s)"
    and "encodeQueue (this t) \<le> encodeQueue (this s)"
    and "encoder (this s) = None \<Longrightarrow> encoder (this t) = None"
    and "int (frames_in_flight t) \<le> encodeQueue (this t)"
  shows "queue_inv t"
  using assms by (auto simp: queue_inv_def)

lemma queue_inv_step:
  assumes inv: "queue_inv s" and st: "step env cfg s ev = Some s'"
  shows "queue_inv s'"
proof (cases ev)
  case (Resume outcome)
  with assms show ?thesis by (simp add: step_def queue_inv_resume)
next
  case (EncoderOutput chunk meta)
  with st obtain e where e: "encoder (this s) = Some e" "pending e > 0"
    and s': "s' = output_callback cfg
                    (s\<lparr>this := (this s)\<lparr>encoder := Some (e\<lparr>pending := pending e - 1\<rparr>)\<rparr>\<rparr>) chunk meta"
    by (auto simp: step_def split: option.splits if_splits)
  from inv e have "int (pending e) \<le> encodeQueue (this s)" by (simp add: queue_inv_pending)
  with e show ?thesis
    unfolding s'
    by (intro queue_inv_same [OF inv])
       (auto simp: output_callback_fields frames_in_flight_def)
next
  case (EncoderError msg closes)
  with st obtain e where e: "encoder (this s) = Some e" "closes \<or> pending e > 0"
    and s': "s' = error_callback
                    (s\<lparr>this := (this s)\<lparr>encoder := Some
                          (if closes then e\<lparr>enc_state := Closed, pending := 0\<rparr>
                           else e\<lparr>pending := pending e - 1\<rparr>)\<rparr>\<rparr>) msg"
    by (auto simp: step_def split: option.splits if_splits)
  from inv e have "int (pending e) \<le> encodeQueue (this s)" by (simp add: queue_inv_pending)
  with e show ?thesis
    unfolding s'
    by (intro queue_inv_same [OF inv])
       (auto simp: error_callback_fields frames_in_flight_def)
next
  case Cancel
  with st show ?thesis by (auto simp: step_def)
next
  case (MuxSettled p outcome)
  from inv have "int (frames_in_flight s) \<le> encodeQueue (this s)"
    by (simp add: queue_inv_def)
  with MuxSettled st show ?thesis
    by (cases outcome)
       (auto simp: step_def split: if_splits intro!: queue_inv_same [OF inv])
qed

lemma reachable_queue_inv: "reachable env cfg s \<Longrightarrow> queue_inv s"
  by (induction rule: reachable.induct) (auto intro: queue_inv_begin queue_inv_step)

subsection \<open>Counting calls\<close>

lemma quiet_kinds [simp]:
  "quiet is_encode" "quiet is_chunk" "quiet (\<lambda>a. a = Flush)" "quiet (\<lambda>a. a = Finalize)"
  by (simp_all add: quiet_def)

lemma calls_update [simp]:
  "calls P (s\<lparr>pc := p\<rparr>) = calls P s"
  "calls P (s\<lparr>this := ex\<rparr>) = calls P s"
  "calls P (s\<lparr>frameIndex := i\<rparr>) = calls P s"
  "calls P (s\<lparr>totalFrames := n\<rparr>) = calls P s"
  "calls P (s\<lparr>mux_pending := M\<rparr>) = calls P s"
  "calls P (s\<lparr>next_promise := k\<rparr>) = calls P s"
  "calls P (s\<lparr>closure_videoDescription := d\<rparr>) = calls P s"
  by (simp_all add: calls_def)

lemma calls_emit [simp]: "calls P (emit as s) = calls P s + length (filter P as)"
  by (simp add: calls_def emit_def)

lemma calls_cleanup [simp]: "quiet P \<Longrightarrow> calls P (cleanup s) = calls P s"
  by (simp add: cleanup_def Let_def quiet_def split: option.split)

lemma calls_return_result [simp]: "quiet P \<Longrightarrow> calls P (return_result s r) = calls P s"
  by (simp add: return_result_def)

lemma calls_throw [simp]: "quiet P \<Longrightarrow> calls P (throw s m) = calls P s"
  by (simp add: throw_def quiet_def)

lemma calls_cancel [simp]: "quiet P \<Longrightarrow> calls P (cancel s) = calls P s"
  by (simp add: cancel_def)

lemma calls_render_frame [simp]: "quiet P \<Longrightarrow> calls P (render_frame s) = calls P s"
  by (simp add: render_frame_def quiet_def split: option.split)

lemma calls_after_loop:
  "quiet P \<Longrightarrow>
   calls P (after_loop s) =
     calls P s + (if \<not> cancelled (this s) \<and> encoder_configured s \<and> P Flush then 1 else 0)"
  by (simp add: after_loop_def await_muxing_def encoder_configured_def split: option.split)

lemma calls_loop_head:
  "quiet P \<Longrightarrow>
   calls P (loop_head env s) =
     calls P s + (if \<not> (int (frameIndex s) < totalFrames s \<and> \<not> cancelled (this s))
                     \<and> \<not> cancelled (this s) \<and> encoder_configured s \<and> P Flush then 1 else 0)"
  by (simp add: loop_head_def Let_def calls_after_loop quiet_def)

lemma calls_submit_frame:
  "quiet P \<Longrightarrow>
   calls P (submit_frame cfg s) =
     calls P s + (if encoder_configured s \<and> P (Encode (frameIndex s) (frameIndex s mod 150 = 0))
                  then 1 else 0)"
  by (simp add: submit_frame_def Let_def encoder_configured_def quiet_def split: option.split)

lemma calls_initializeEncoder [simp]:
  "quiet P \<Longrightarrow> calls P (fst (initializeEncoder env s)) = calls P s"
  by (simp add: initializeEncoder_def Let_def quiet_def split: option.split)

lemma calls_capture [simp]: "calls P (capture_decoder_config s meta) = calls P s"
  by (simp add: calls_def capture_decoder_config_fields)

lemma calls_error_callback [simp]: "quiet P \<Longrightarrow> calls P (error_callback s m) = calls P s"
  by (simp add: error_callback_def quiet_def)

lemma encode_calls_start_muxing [simp]:
  "calls is_encode (start_muxing cfg s first chunk meta) = calls is_encode s"
  by (simp add: start_muxing_def Let_def split: option.split)

lemma encode_calls_output_callback [simp]:
  "calls is_encode (output_callback cfg s chunk meta) = calls is_encode s"
  by (simp add: output_callback_def Let_def)

lemma submit_frame_fields:
  "cancelled (this (submit_frame cfg s)) = cancelled (this s)"
  "frameIndex (submit_frame cfg s) = Suc (frameIndex s)"
  "totalFrames (submit_frame cfg s) = totalFrames s"
  "encoder_configured (submit_frame cfg s) = encoder_configured s"
  by (simp_all add: submit_frame_def Let_def emit_def encoder_configured_def split: option.split)

lemma loop_head_this:
  "\<not> cancelled (this t) \<Longrightarrow> renderer (this t) \<noteq> None \<Longrightarrow> this (loop_head env t) = this t"
  by (auto simp: loop_head_def Let_def after_loop_def await_muxing_def render_frame_def
           split: option.splits)

lemma submit_frame_counter:
  "encoder_configured s \<Longrightarrow>
   encodeQueue (this (submit_frame cfg s)) = encodeQueue (this s) + 1 \<and>
   frames_in_flight (submit_frame cfg s) = Suc (frames_in_flight s) \<and>
   renderer (this (submit_frame cfg s)) = renderer (this s)"
  by (auto simp: submit_frame_def Let_def encoder_configured_def frames_in_flight_def
           split: option.splits)

lemma encode_calls_backpressure:
  assumes "loop_inv s"
    and "encode_calls (backpressure env cfg s) \<noteq> encode_calls s"
  shows "encodeQueue (this s) < MAX_ENCODE_QUEUE \<and>
         encode_calls (backpressure env cfg s) = Suc (encode_calls s) \<and>
         encodeQueue (this (backpressure env cfg s)) = encodeQueue (this s) + 1 \<and>
         frames_in_flight (backpressure env cfg s) = Suc (frames_in_flight s)"
proof (cases "encodeQueue (this s) \<ge> MAX_ENCODE_QUEUE \<and> \<not> cancelled (this s)")
  case True
  then have "backpressure env cfg s = s\<lparr>pc := AwaitBackpressure\<rparr>"
    unfolding backpressure_def by (rule if_P)
  with assms(2) show ?thesis by (simp add: encode_calls_def)
next
  case False
  let ?t = "submit_frame cfg s"
  from False have eq: "backpressure env cfg s = loop_head env ?t"
    unfolding backpressure_def by (rule if_not_P)
  have count: "encode_calls (backpressure env cfg s) =
                 encode_calls s + (if encoder_configured s then 1 else 0)"
    by (simp add: eq encode_calls_def calls_loop_head calls_submit_frame)
  with assms(2) have conf: "encoder_configured s" by (simp split: if_splits)
  then have "encoder (this s) \<noteq> None"
    by (auto simp: encoder_configured_def split: option.splits)
  with assms(1) have live: "\<not> cancelled (this s)" "renderer (this s) \<noteq> None"
    by (auto simp: loop_inv_def split: if_splits)
  from conf have sub: "encodeQueue (this ?t) = encodeQueue (this s) + 1"
    "frames_in_flight ?t = Suc (frames_in_flight s)" "renderer (this ?t) = renderer (this s)"
    by (simp_all add: submit_frame_counter)
  from live sub(3) have "this (loop_head env ?t) = this ?t"
    by (intro loop_head_this) (simp_all add: submit_frame_fields)
  with sub have "encodeQueue (this (backpressure env cfg s)) = encodeQueue (this s) + 1"
    and "frames_in_flight (backpressure env cfg s) = Suc (frames_in_flight s)"
    by (simp_all add: eq frames_in_flight_def)
  with live False conf count show ?thesis by simp
qed

text \<open>
  C1: in every run of \<open>export()\<close> and at every point of it, the counter
  \<open>encodeQueue\<close> is at most \<open>MAX_ENCODE_QUEUE\<close>, and the encoder holds at most as many
  submitted frames as the counter says. While the counter is at or above the bound and the
  export is not cancelled, the loop stays in its wait and submits nothing; a turn that
  submits a frame starts with the counter below the bound, submits one frame, and ends
  with the counter and the number of frames held by the encoder each one higher.
\<close>

theorem encodeQueue_bounded:
  assumes "reachable env cfg s"
  shows "encodeQueue (this s) \<le> MAX_ENCODE_QUEUE
       \<and> int (frames_in_flight s) \<le> encodeQueue (this s)
       \<and> (pc s = AwaitBackpressure \<and> MAX_ENCODE_QUEUE \<le> encodeQueue (this s)
            \<and> \<not> cancelled (this s)
          \<longrightarrow> step env cfg s (Resume Fulfilled) = Some s)
       \<and> (\<forall>ev s'. step env cfg s ev = Some s' \<and> encode_calls s' \<noteq> encode_calls s
          \<longrightarrow> encodeQueue (this s) < MAX_ENCODE_QUEUE
              \<and> encode_calls s' = Suc (encode_calls s)
              \<and> encodeQueue (this s') = encodeQueue (this s) + 1
              \<and> frames_in_flight s' = Suc (frames_in_flight s))"
proof (intro conjI allI impI)
  from assms have inv: "queue_inv s" by (rule reachable_queue_inv)
  then show "encodeQueue (this s) \<le> MAX_ENCODE_QUEUE"
    and "int (frames_in_flight s) \<le> encodeQueue (this s)"
    by (simp_all add: queue_inv_def)
next
  assume "pc s = AwaitBackpressure \<and> MAX_ENCODE_QUEUE \<le> encodeQueue (this s)
            \<and> \<not> cancelled (this s)"
  then show "step env cfg s (Resume Fulfilled) = Some s"
    by (simp add: step_def resume_at backpressure_def)
next
  fix ev s'
  assume a: "step env cfg s ev = Some s' \<and> encode_calls s' \<noteq> encode_calls s"
  from assms have inv: "queue_inv s" by (rule reachable_queue_inv)
  have "encodeQueue (this s) < MAX_ENCODE_QUEUE \<and> encode_calls s' = Suc (encode_calls s)
        \<and> encodeQueue (this s') = encodeQueue (this s) + 1
        \<and> frames_in_flight s' = Suc (frames_in_flight s)"
  proof (cases ev)
    case (Resume outcome)
    with a have res: "resume env cfg s outcome = Some s'" by (simp add: step_def)
    consider (wait) "pc s = AwaitBackpressure" | (render) "pc s = AwaitRenderFrame"
      | (other) "pc s \<noteq> AwaitBackpressure" "pc s \<noteq> AwaitRenderFrame"
      by blast
    then show ?thesis
    proof cases
      case wait
      with inv have li: "loop_inv s" by (simp add: queue_inv_loop_inv loop_pc_def)
      from res wait have s': "s' = backpressure env cfg s"
        by (cases outcome) (simp_all add: resume_at)
      with a have "encode_calls (backpressure env cfg s) \<noteq> encode_calls s" by simp
      from encode_calls_backpressure [OF li this] show ?thesis by (simp add: s')
    next
      case render
      with inv have li: "loop_inv s" by (simp add: queue_inv_loop_inv loop_pc_def)
      from res render a have s': "s' = backpressure env cfg s"
        by (cases outcome)
           (auto simp: resume_at encode_calls_def split: option.splits)
      with a have "encode_calls (backpressure env cfg s) \<noteq> encode_calls s" by simp
      from encode_calls_backpressure [OF li this] show ?thesis by (simp add: s')
    next
      case other
      with res a have False
        by (cases "pc s"; cases outcome)
           (auto simp: resume_at encode_calls_def calls_loop_head await_muxing_def
                 split: option.splits if_splits)
      then show ?thesis ..
    qed
  next
    case (EncoderOutput chunk meta)
    with a have False
      by (auto simp: step_def encode_calls_def split: option.splits if_splits)
    then show ?thesis ..
  next
    case (EncoderError msg closes)
    with a have False
      by (auto simp: step_def encode_calls_def split: option.splits if_splits)
    then show ?thesis ..
  next
    case Cancel
    with a have False by (auto simp: step_def encode_calls_def)
    then show ?thesis ..
  next
    case (MuxSettled p outcome)
    with a have False
      by (cases outcome) (auto simp: step_def encode_calls_def split: if_splits)
    then show ?thesis ..
  qed
  then show "encodeQueue (this s) < MAX_ENCODE_QUEUE"
    and "encode_calls s' = Suc (encode_calls s)"
    and "encodeQueue (this s') = encodeQueue (this s) + 1"
    and "frames_in_flight s' = Suc (frames_in_flight s)" by simp_all
qed

lemmas run_defs =
  step_def resume_def loop_head_def render_frame_def backpressure_def submit_frame_def
  after_loop_def await_muxing_def initializeEncoder_def export_begin_def cleanup_def cancel_def
  return_result_def throw_def emit_def output_callback_def capture_decoder_config_def
  start_muxing_def synthesized_metadata_def error_callback_def outputs_pending_def
  meta_description_def meta_colorSpace_def codec_or_default_def

lemmas run_inputs = new_exporter_def cfg0_def env0_def setup_events_def MAX_ENCODE_QUEUE_def

lemmas observation_defs =
  calls_def encode_calls_def flush_calls_def finalize_calls_def chunks_added_def muxed_def
  encoder_configured_def

lemmas run_events =
  first_frame_events_def encode_error_events_def dropped_frame_events_def
  cancel_in_seek_events_def two_chunk_events_def encoder_meta_def smpte170m_def

text \<open>
  C3, as stated, fails: \<open>cancel()\<close> does not only set a flag. Called while \<open>export()\<close>
  waits for the seek to frame 1, it closes the encoder, which holds frame 0, and destroys
  the decoder, which is seeking, and the renderer, all at once and before \<open>export()\<close> is
  resumed: line 275 calls \<open>cleanup()\<close>.
\<close>

theorem cancel_releases_resources_at_once:
  "\<exists>s s'. run env0 cfg0 (export_begin new_exporter) first_frame_events = Some s
     \<and> pc s = AwaitFrameReady \<and> last (trace s) = Seek 1 \<and> frames_in_flight s = 1
     \<and> step env0 cfg0 s Cancel = Some s'
     \<and> s' \<noteq> s\<lparr>this := (this s)\<lparr>cancelled := True\<rparr>\<rparr>
     \<and> trace s' = trace s @ [EncoderClose, DecoderDestroy, RendererDestroy]
     \<and> encoder (this s') = None \<and> decoder (this s') = None
     \<and> renderer (this s') = None \<and> muxer (this s') = None"
  by (simp add: run_events run_defs run_inputs Let_def frames_in_flight_def)

text \<open>
  When the frame then becomes ready, the loop body goes on, calls \<open>renderFrame\<close> on the
  renderer that is now null, and \<open>export()\<close> returns the message of that \<open>TypeError\<close>.
\<close>

lemma cancel_during_seek_returns_type_error:
  "\<exists>s r. run env0 cfg0 (export_begin new_exporter) cancel_in_seek_events = Some s
     \<and> pc s = Returned r \<and> success r = False
     \<and> error r = Some (null_call ''renderFrame'')
     \<and> error r \<noteq> Some ''Export cancelled''"
  by (simp add: run_events run_defs run_inputs Let_def null_call_def)

text \<open>
  C4, as stated, fails: when the encoder has closed itself after an error, its state is not
  \<open>configured\<close> at line 150, \<open>flush()\<close> is skipped, and \<open>finalize()\<close> is called and
  the export succeeds without the encoder having been flushed.
\<close>

theorem finalize_without_flush:
  "\<exists>s r. run env0 cfg0 (export_begin new_exporter) dropped_frame_events = Some s
     \<and> pc s = Returned r \<and> success r
     \<and> finalize_calls s = 1 \<and> flush_calls s = 0"
  by (simp add: run_events run_defs run_inputs observation_defs Let_def)

text \<open>
  C8, as stated, fails: the encoder reports a decoder configuration with its own colour
  space on both chunks. The configuration attached to the first chunk carries the encoder's
  colour space, not the four fixed tags, and the second chunk is handed to the muxer with
  the metadata of the encoder, decoder configuration included.
\<close>

theorem chunk_metadata_from_encoder:
  "\<exists>s. run env0 cfg0 (export_begin new_exporter) two_chunk_events = Some s
     \<and> muxed (trace s) =
         [([0], Some \<lparr>decoderConfig = Some
                    \<lparr>codec = ''avc1.64001f'', codedWidth = Some 640, codedHeight = Some 360,
                     description = Some [1, 2, 3], colorSpace = Some smpte170m\<rparr>\<rparr>),
          ([1], encoder_meta)]
     \<and> smpte170m \<noteq> default_colorSpace
     \<and> (\<exists>dc. encoder_meta = Some \<lparr>decoderConfig = Some dc\<rparr>)"
  by (simp add: run_events run_defs run_inputs observation_defs Let_def default_colorSpace_def)

text \<open>
  C10: when, at the submission of lines 126-142, the encoder is null or its state is not
  \<open>configured\<close>, the frame is dropped silently: nothing is submitted and nothing is
  logged, the counter and every other field of the exporter are unchanged, the frame index
  advances, and the progress of the frame is reported to the callback (when there is one)
  as for a submitted frame. So an export can succeed with fewer submitted frames than
  \<open>totalFrames\<close>: in the run \<open>dropped_frame_events\<close> one frame of two is submitted. (The
  percentage divides by \<open>totalFrames\<close>, which is positive inside the loop.)
\<close>

theorem frame_dropped_without_configured_encoder:
  assumes "encoder (this s) = None \<or> (\<exists>e. encoder (this s) = Some e \<and> enc_state e \<noteq> Configured)"
  shows "trace (submit_frame cfg s) =
           trace s @ (if onProgress cfg
                      then [Progress (Suc (frameIndex s)) (totalFrames s)
                              (real (Suc (frameIndex s)) / real_of_int (totalFrames s) * 100)]
                      else [])
       \<and> encode_calls (submit_frame cfg s) = encode_calls s
       \<and> this (submit_frame cfg s) = this s
       \<and> frameIndex (submit_frame cfg s) = Suc (frameIndex s)
       \<and> pc (submit_frame cfg s) = pc s
       \<and> (\<exists>s' r. run env0 cfg0 (export_begin new_exporter) dropped_frame_events = Some s'
             \<and> pc s' = Returned r \<and> success r
             \<and> int (encode_calls s') < totalFrames s')"
proof -
  have run: "\<exists>s' r. run env0 cfg0 (export_begin new_exporter) dropped_frame_events = Some s'
             \<and> pc s' = Returned r \<and> success r
             \<and> int (encode_calls s') < totalFrames s'"
    by (simp add: run_events run_defs run_inputs observation_defs Let_def)
  from assms have "submit_frame cfg s =
      (if onProgress cfg
       then emit [Progress (Suc (frameIndex s)) (totalFrames s)
                    (real (Suc (frameIndex s)) / real_of_int (totalFrames s) * 100)]
              (s\<lparr>frameIndex := Suc (frameIndex s)\<rparr>)
       else s\<lparr>frameIndex := Suc (frameIndex s)\<rparr>)"
    by (auto simp: submit_frame_def Let_def)
  with run show ?thesis
    by (simp add: emit_def encode_calls_def calls_def)
qed

theorem frame_dropped_without_configured_encoder_witness:
  "\<exists>s e. run env0 cfg0 (export_begin new_exporter) (encode_error_events True @ [Resume Fulfilled])
            = Some s
     \<and> encoder (this s) = Some e \<and> enc_state e \<noteq> Configured
     \<and> trace (submit_frame cfg0 s) = trace s @ [Progress 2 2 100]
     \<and> encode_calls (submit_frame cfg0 s) = 1"
proof -
  obtain s e where r: "run env0 cfg0 (export_begin new_exporter)
                         (encode_error_events True @ [Resume Fulfilled]) = Some s"
    and e: "encoder (this s) = Some e" "enc_state e \<noteq> Configured"
    and f: "frameIndex s = 1" "totalFrames s = 2" "encode_calls s = 1"
    by (simp add: run_events run_defs run_inputs observation_defs Let_def)
  from e have "encoder (this s) = None \<or> (\<exists>e. encoder (this s) = Some e \<and> enc_state e \<noteq> Configured)"
    by blast
  from frame_dropped_without_configured_encoder [OF this, of cfg0] r e f show ?thesis
    by (simp add: cfg0_def)
qed

subsection \<open>What each function leaves unchanged\<close>

lemma submit_frame_session:
  "muxer (this (submit_frame cfg s)) = muxer (this s)"
  "muxingPromises (this (submit_frame cfg s)) = muxingPromises (this s)"
  "chunkCount (this (submit_frame cfg s)) = chunkCount (this s)"
  "videoDescription (this (submit_frame cfg s)) = videoDescription (this s)"
  "videoColorSpace (this (submit_frame cfg s)) = videoColorSpace (this s)"
  "renderer (this (submit_frame cfg s)) = renderer (this s)"
  "(encoder (this (submit_frame cfg s)) = None) = (encoder (this s) = None)"
  "pc (submit_frame cfg s) = pc s"
  "closure_videoDescription (submit_frame cfg s) = closure_videoDescription s"
  "mux_pending (submit_frame cfg s) = mux_pending s"
  "next_promise (submit_frame cfg s) = next_promise s"
  by (simp_all add: submit_frame_def Let_def split: option.split)

lemma predicates_update [simp]:
  "encoder_configured (s\<lparr>pc := p\<rparr>) = encoder_configured s"
  "encoder_configured (s\<lparr>frameIndex := i\<rparr>) = encoder_configured s"
  "encoder_configured (emit as s) = encoder_configured s"
  "outputs_pending (s\<lparr>pc := p\<rparr>) = outputs_pending s"
  "outputs_pending (emit as s) = outputs_pending s"
  by (simp_all add: encoder_configured_def outputs_pending_def)

lemma observations_update [simp]:
  "finalize_calls (s\<lparr>pc := p\<rparr>) = finalize_calls s"
  "flush_calls (s\<lparr>pc := p\<rparr>) = flush_calls s"
  "chunks_added (s\<lparr>pc := p\<rparr>) = chunks_added s"
  "finalize_calls (s\<lparr>frameIndex := i\<rparr>) = finalize_calls s"
  "flush_calls (s\<lparr>frameIndex := i\<rparr>) = flush_calls s"
  "chunks_added (s\<lparr>frameIndex := i\<rparr>) = chunks_added s"
  "finalize_calls (s\<lparr>this := ex\<rparr>) = finalize_calls s"
  "flush_calls (s\<lparr>this := ex\<rparr>) = flush_calls s"
  "chunks_added (s\<lparr>this := ex\<rparr>) = chunks_added s"
  "finalize_calls (s\<lparr>totalFrames := n\<rparr>) = finalize_calls s"
  "flush_calls (s\<lparr>totalFrames := n\<rparr>) = flush_calls s"
  "chunks_added (s\<lparr>totalFrames := n\<rparr>) = chunks_added s"
  "finalize_calls (s\<lparr>mux_pending := M\<rparr>) = finalize_calls s"
  "flush_calls (s\<lparr>mux_pending := M\<rparr>) = flush_calls s"
  "chunks_added (s\<lparr>mux_pending := M\<rparr>) = chunks_added s"
  by (simp_all add: finalize_calls_def flush_calls_def chunks_added_def)

subsection \<open>Where a segment of the loop can end\<close>

lemma same_session_refl [simp]: "same_session s s"
  by (simp add: same_session_def)

lemma same_session_pc [simp]: "same_session s (t\<lparr>pc := p\<rparr>) = same_session s t"
  by (simp add: same_session_def)

lemma same_session_emit [simp]: "same_session s (emit as t) = same_session s t"
  by (simp add: same_session_def)

lemma segment_throw: "segment_result s (throw s m)"
  by (simp add: segment_result_def finalize_calls_def chunks_added_def)

lemma segment_cancelled: "segment_result s (return_result s cancelled_result)"
  by (simp add: segment_result_def finalize_calls_def chunks_added_def cancelled_result_def)

lemma segment_render_frame: "segment_result s (render_frame s)"
proof (cases "renderer (this s)")
  case None
  then show ?thesis by (simp add: render_frame_def segment_throw)
next
  case (Some r)
  then show ?thesis
    by (simp add: render_frame_def segment_result_def loop_pc_def finalize_calls_def
        chunks_added_def flush_calls_def)
qed

lemma segment_after_loop: "segment_result s (after_loop s)"
proof (cases "cancelled (this s)")
  case True
  then show ?thesis by (simp add: after_loop_def segment_cancelled)
next
  case False
  show ?thesis
  proof (cases "encoder_configured s")
    case True
    with False have "after_loop s = (emit [Flush] s)\<lparr>pc := AwaitFlush\<rparr>"
      by (auto simp: after_loop_def encoder_configured_def split: option.splits)
    with True show ?thesis
      by (simp add: segment_result_def finalize_calls_def chunks_added_def flush_calls_def)
  next
    case no: False
    with False have "after_loop s = await_muxing s"
      by (auto simp: after_loop_def encoder_configured_def split: option.splits)
    with no show ?thesis
      by (simp add: await_muxing_def segment_result_def)
  qed
qed

lemma segment_loop_head: "segment_result s (loop_head env s)"
proof (cases "int (frameIndex s) < totalFrames s \<and> \<not> cancelled (this s)")
  case False
  then have "loop_head env s = after_loop s"
    unfolding loop_head_def by (rule if_not_P)
  then show ?thesis by (simp add: segment_after_loop)
next
  case True
  show ?thesis
  proof (cases "needs_seek env (frameIndex s) \<or> frameIndex s = 0")
    case seek: True
    with True have "loop_head env s =
        (emit (if needs_seek env (frameIndex s) then [Seek (frameIndex s)] else []) s)
          \<lparr>pc := AwaitFrameReady\<rparr>"
      by (simp add: loop_head_def Let_def)
    then show ?thesis
      by (simp add: segment_result_def loop_pc_def finalize_calls_def chunks_added_def
          flush_calls_def)
  next
    case False
    with True have "loop_head env s = render_frame s"
      by (simp add: loop_head_def Let_def)
    then show ?thesis by (simp add: segment_render_frame)
  qed
qed

lemma segment_after:
  assumes "segment_result s' t"
    and "same_session s s'"
    and "mux_pending s' = mux_pending s"
    and "closure_videoDescription s' = closure_videoDescription s"
    and "finalize_calls s' = finalize_calls s"
    and "chunks_added s' = chunks_added s"
    and "flush_calls s' = flush_calls s"
  shows "segment_result s t"
  using assms by (auto simp: segment_result_def same_session_def)

lemma same_session_submit_frame: "same_session s (submit_frame cfg s)"
  by (simp add: same_session_def submit_frame_session submit_frame_fields)

lemma segment_submit: "segment_result s (loop_head env (submit_frame cfg s))"
  by (rule segment_after [OF segment_loop_head same_session_submit_frame])
     (simp_all add: submit_frame_session finalize_calls_def chunks_added_def flush_calls_def
        calls_submit_frame)

lemma segment_backpressure: "segment_result s (backpressure env cfg s)"
proof (cases "encodeQueue (this s) \<ge> MAX_ENCODE_QUEUE \<and> \<not> cancelled (this s)")
  case True
  then have "backpressure env cfg s = s\<lparr>pc := AwaitBackpressure\<rparr>"
    unfolding backpressure_def by (rule if_P)
  then show ?thesis by (simp add: segment_result_def loop_pc_def)
next
  case False
  then have "backpressure env cfg s = loop_head env (submit_frame cfg s)"
    unfolding backpressure_def by (rule if_not_P)
  then show ?thesis by (simp add: segment_submit)
qed

text \<open>The steps that run a segment of the loop.\<close>

lemma resume_segment:
  assumes "resume env cfg s outcome = Some s'"
    and "pc s = AwaitMuxerInit \<or> loop_pc (pc s)"
  shows "segment_result s s'"
proof -
  consider (init) "pc s = AwaitMuxerInit" | (ready) "pc s = AwaitFrameReady"
    | (render) "pc s = AwaitRenderFrame" | (wait) "pc s = AwaitBackpressure"
    using assms(2) by (auto simp: loop_pc_def)
  then show ?thesis
  proof cases
    case init
    have "segment_result s (loop_head env (s\<lparr>frameIndex := 0\<rparr>))"
      by (rule segment_after [OF segment_loop_head]) (simp_all add: same_session_def)
    with assms(1) init show ?thesis
      by (cases outcome) (auto simp: resume_at segment_throw split: option.splits if_splits)
  next
    case ready
    with assms(1) show ?thesis
      by (cases outcome) (auto simp: resume_at segment_render_frame)
  next
    case render
    with assms(1) show ?thesis
      by (cases outcome)
         (auto simp: resume_at segment_throw segment_backpressure split: option.splits)
  next
    case wait
    with assms(1) show ?thesis
      by (cases outcome) (auto simp: resume_at segment_backpressure)
  qed
qed

subsection \<open>The callbacks and initializeEncoder, field by field\<close>

lemma initializeEncoder_fields:
  "muxer (this (fst (initializeEncoder env s))) = muxer (this s)"
  "decoder (this (fst (initializeEncoder env s))) = decoder (this s)"
  "cancelled (this (fst (initializeEncoder env s))) = cancelled (this s)"
  "videoDescription (this (fst (initializeEncoder env s))) = videoDescription (this s)"
  "videoColorSpace (this (fst (initializeEncoder env s))) = videoColorSpace (this s)"
  "chunkCount (this (fst (initializeEncoder env s))) = 0"
  "muxingPromises (this (fst (initializeEncoder env s))) = []"
  "closure_videoDescription (fst (initializeEncoder env s)) = None"
  "mux_pending (fst (initializeEncoder env s)) = mux_pending s"
  "pc (fst (initializeEncoder env s)) = pc s"
  "\<exists>e. encoder (this (fst (initializeEncoder env s))) = Some e \<and> pending e = 0"
  by (simp_all add: initializeEncoder_def Let_def split: option.split)

lemma start_muxing_pending:
  "mux_pending (start_muxing cfg s first chunk meta) =
     (case muxer (this s) of
        None \<Rightarrow> mux_pending s
      | Some _ \<Rightarrow> insert (next_promise s) (mux_pending s))"
  by (simp add: start_muxing_def Let_def split: option.split)

lemma start_muxing_calls:
  "quiet P \<Longrightarrow>
   calls P (start_muxing cfg s first chunk meta) =
     calls P s + (case muxer (this s) of
                    None \<Rightarrow> 0
                  | Some _ \<Rightarrow>
                      if P (AddVideoChunk chunk
                              (if first \<and> videoDescription (this s) \<noteq> None
                               then Some (synthesized_metadata cfg (this s)) else meta))
                      then 1 else 0)"
  by (simp add: start_muxing_def Let_def quiet_def split: option.split)

lemma output_callback_pending:
  "mux_pending (output_callback cfg s chunk meta) =
     (case muxer (this s) of
        None \<Rightarrow> mux_pending s
      | Some _ \<Rightarrow> insert (next_promise s) (mux_pending s))"
  by (simp add: output_callback_def Let_def start_muxing_pending capture_decoder_config_fields
      split: option.split)

lemma output_callback_calls:
  "calls (\<lambda>a. a = Finalize) (output_callback cfg s chunk meta) = calls (\<lambda>a. a = Finalize) s"
  "calls (\<lambda>a. a = Flush) (output_callback cfg s chunk meta) = calls (\<lambda>a. a = Flush) s"
  "calls is_chunk (output_callback cfg s chunk meta) =
     calls is_chunk s + (case muxer (this s) of None \<Rightarrow> 0 | Some _ \<Rightarrow> 1)"
  by (simp_all add: output_callback_def Let_def start_muxing_calls
      capture_decoder_config_fields split: option.split)

lemma encoder_update_predicates [simp]:
  "finalize_calls (output_callback cfg s chunk meta) = finalize_calls s"
  "flush_calls (output_callback cfg s chunk meta) = flush_calls s"
  "finalize_calls (error_callback s m) = finalize_calls s"
  "flush_calls (error_callback s m) = flush_calls s"
  "chunks_added (error_callback s m) = chunks_added s"
  "finalize_calls (cancel s) = finalize_calls s"
  "flush_calls (cancel s) = flush_calls s"
  "chunks_added (cancel s) = chunks_added s"
  "finalize_calls (throw s m) = finalize_calls s"
  "flush_calls (throw s m) = flush_calls s"
  "chunks_added (throw s m) = chunks_added s"
  "finalize_calls (return_result s r) = finalize_calls s"
  "flush_calls (return_result s r) = flush_calls s"
  "chunks_added (return_result s r) = chunks_added s"
  "finalize_calls (fst (initializeEncoder env s)) = finalize_calls s"
  "flush_calls (fst (initializeEncoder env s)) = flush_calls s"
  "chunks_added (fst (initializeEncoder env s)) = chunks_added s"
  by (simp_all add: finalize_calls_def flush_calls_def chunks_added_def output_callback_calls)

lemma encoder_configured_output [simp]:
  "encoder_configured (output_callback cfg s chunk meta) = encoder_configured s"
  "outputs_pending (output_callback cfg s chunk meta) = outputs_pending s"
  by (simp_all add: encoder_configured_def outputs_pending_def output_callback_fields)

lemma released_predicates [simp]:
  "\<not> encoder_configured (cancel s)" "\<not> outputs_pending (cancel s)"
  "\<not> encoder_configured (throw s m)" "\<not> outputs_pending (throw s m)"
  "\<not> encoder_configured (return_result s r)" "\<not> outputs_pending (return_result s r)"
  by (simp_all add: encoder_configured_def outputs_pending_def)

lemma outputs_pending_configured: "outputs_pending s \<Longrightarrow> encoder_configured s"
  by (auto simp: outputs_pending_def encoder_configured_def split: option.splits)

subsection \<open>The pending promises\<close>

lemma promise_inv_begin: "promise_inv (export_begin ex0)"
  by (simp add: promise_inv_def export_begin_def Let_def)

lemma promise_inv_closed [simp]:
  "promise_inv (throw s m)" "promise_inv (return_result s r)"
  by (simp_all add: promise_inv_def)

lemma promise_inv_segment:
  assumes "promise_inv s" and "\<not> early_pc (pc s)" and "segment_result s t"
  shows "promise_inv t"
  using assms
  by (auto simp: promise_inv_def segment_result_def same_session_def loop_pc_def
           dest: outputs_pending_configured)

lemma promise_inv_resume:
  assumes inv: "promise_inv s" and res: "resume env cfg s outcome = Some s'"
  shows "promise_inv s'"
proof (cases "pc s = AwaitMuxerInit \<or> loop_pc (pc s)")
  case True
  then have "\<not> early_pc (pc s)" by (auto simp: loop_pc_def)
  then show ?thesis
    by (rule promise_inv_segment [OF inv _ resume_segment [OF res True]])
next
  case False
  show ?thesis
  proof (cases "pc s")
    case AwaitLoadVideo
    with res inv show ?thesis
      by (cases outcome) (auto simp: resume_at promise_inv_def)
  next
    case AwaitRendererInit
    with res inv show ?thesis
      by (cases outcome) (auto simp: resume_at promise_inv_def initializeEncoder_fields)
  next
    case (AwaitInitEncoder failure)
    with res inv show ?thesis
      by (cases failure) (auto simp: resume_at promise_inv_def split: if_splits)
  next
    case AwaitFlush
    with res inv show ?thesis
      by (cases outcome)
         (auto simp: resume_at promise_inv_def await_muxing_def outputs_pending_def
               split: if_splits)
  next
    case (AwaitMuxAll promises)
    with res inv show ?thesis
      by (cases outcome) (auto simp: resume_at promise_inv_def split: if_splits option.splits)
  next
    case AwaitFinalize
    with res show ?thesis by (cases outcome) (auto simp: resume_at)
  next
    case (Returned r)
    with res show ?thesis by (simp add: resume_at)
  qed (use False in \<open>simp_all add: loop_pc_def\<close>)
qed

lemma promise_inv_step:
  assumes inv: "promise_inv s" and st: "step env cfg s ev = Some s'"
  shows "promise_inv s'"
proof (cases ev)
  case (Resume outcome)
  with assms show ?thesis by (simp add: step_def promise_inv_resume)
next
  case (EncoderOutput chunk meta)
  with st obtain e where e: "encoder (this s) = Some e" "enc_state e = Configured" "pending e > 0"
    and s': "s' = output_callback cfg
                    (s\<lparr>this := (this s)\<lparr>encoder := Some (e\<lparr>pending := pending e - 1\<rparr>)\<rparr>\<rparr>) chunk meta"
    by (auto simp: step_def split: option.splits if_splits)
  from e have "outputs_pending s" by (simp add: outputs_pending_def)
  with inv show ?thesis
    unfolding s'
    by (auto simp: promise_inv_def output_callback_fields output_callback_pending
             split: option.splits)
next
  case (EncoderError msg closes)
  with st obtain e where e: "encoder (this s) = Some e" "enc_state e = Configured"
      "closes \<or> pending e > 0"
    and s': "s' = error_callback
                    (s\<lparr>this := (this s)\<lparr>encoder := Some
                          (if closes then e\<lparr>enc_state := Closed, pending := 0\<rparr>
                           else e\<lparr>pending := pending e - 1\<rparr>)\<rparr>\<rparr>) msg"
    by (auto simp: step_def split: option.splits if_splits)
  from inv e show ?thesis
    unfolding s'
    by (auto simp: promise_inv_def error_callback_fields outputs_pending_def)
next
  case Cancel
  with st inv show ?thesis by (auto simp: step_def promise_inv_def)
next
  case (MuxSettled p outcome)
  with st inv show ?thesis
    by (cases outcome) (auto simp: step_def promise_inv_def outputs_pending_def split: if_splits)
qed

lemma reachable_promise_inv: "reachable env cfg s \<Longrightarrow> promise_inv s"
  by (induction rule: reachable.induct) (auto intro: promise_inv_begin promise_inv_step)

subsection \<open>The calls of flush and finalize\<close>

lemma calls_begin: "quiet P \<Longrightarrow> calls P (export_begin ex0) = 0"
  by (simp add: export_begin_def Let_def) (simp add: calls_def)

lemma export_begin_fields [simp]:
  "pc (export_begin ex0) = AwaitLoadVideo"
  "encoder (this (export_begin ex0)) = None"
  "muxer (this (export_begin ex0)) = None"
  "videoDescription (this (export_begin ex0)) = None"
  "videoColorSpace (this (export_begin ex0)) = None"
  "mux_pending (export_begin ex0) = {}"
  "finalize_calls (export_begin ex0) = 0"
  "flush_calls (export_begin ex0) = 0"
  "chunks_added (export_begin ex0) = 0"
  by (simp_all add: finalize_calls_def flush_calls_def chunks_added_def calls_begin)
     (simp_all add: export_begin_def Let_def)

lemma count_inv_begin: "count_inv (export_begin ex0)"
  by (simp add: count_inv_def)

lemma count_inv_finalize_le: "count_inv s \<Longrightarrow> finalize_calls s \<le> 1"
  by (auto simp: count_inv_def split: pc.splits)

lemma count_inv_throw [simp]: "count_inv (throw s m) = (finalize_calls s \<le> 1)"
  by (simp add: count_inv_def)

lemma count_inv_segment:
  assumes "count_inv s" and "pc s = AwaitMuxerInit \<or> loop_pc (pc s)"
    and "segment_result s t"
  shows "count_inv t"
  using assms
  by (auto simp: count_inv_def segment_result_def loop_pc_def)

lemma count_inv_resume:
  assumes inv: "count_inv s" and res: "resume env cfg s outcome = Some s'"
  shows "count_inv s'"
proof (cases "pc s = AwaitMuxerInit \<or> loop_pc (pc s)")
  case True
  then show ?thesis
    by (rule count_inv_segment [OF inv _ resume_segment [OF res True]])
next
  case False
  show ?thesis
  proof (cases "pc s")
    case AwaitLoadVideo
    with res inv show ?thesis
      by (cases outcome) (auto simp: resume_at count_inv_def)
  next
    case AwaitRendererInit
    with res inv show ?thesis
      by (cases outcome) (auto simp: resume_at count_inv_def)
  next
    case (AwaitInitEncoder failure)
    with res inv show ?thesis
      by (cases failure) (auto simp: resume_at count_inv_def split: if_splits)
  next
    case AwaitFlush
    with res inv show ?thesis
      by (cases outcome)
         (auto simp: resume_at count_inv_def await_muxing_def split: if_splits)
  next
    case (AwaitMuxAll promises)
    with res inv show ?thesis
      by (cases outcome)
         (auto simp: resume_at count_inv_def finalize_calls_def
               split: if_splits option.splits)
  next
    case AwaitFinalize
    with res inv show ?thesis
      by (cases outcome) (auto simp: resume_at count_inv_def)
  next
    case (Returned r)
    with res show ?thesis by (simp add: resume_at)
  qed (use False in \<open>simp_all add: loop_pc_def\<close>)
qed

lemma count_inv_same:
  assumes "count_inv s" and "pc t = pc s" and "finalize_calls t = finalize_calls s"
    and "flush_calls t = flush_calls s" and "encoder_configured t \<Longrightarrow> encoder_configured s"
  shows "count_inv t"
  using assms by (auto simp: count_inv_def split: pc.splits)

lemma count_inv_step:
  assumes inv: "count_inv s" and st: "step env cfg s ev = Some s'"
  shows "count_inv s'"
proof (cases ev)
  case (Resume outcome)
  with assms show ?thesis by (simp add: step_def count_inv_resume)
next
  case (EncoderOutput chunk meta)
  with st obtain e where e: "encoder (this s) = Some e" "enc_state e = Configured"
    and s': "s' = output_callback cfg
                    (s\<lparr>this := (this s)\<lparr>encoder := Some (e\<lparr>pending := pending e - 1\<rparr>)\<rparr>\<rparr>) chunk meta"
    by (auto simp: step_def split: option.splits if_splits)
  from e show ?thesis
    unfolding s'
    by (intro count_inv_same [OF inv])
       (simp_all add: output_callback_fields encoder_configured_def)
next
  case (EncoderError msg closes)
  with st obtain e where e: "encoder (this s) = Some e" "enc_state e = Configured"
    and s': "s' = error_callback
                    (s\<lparr>this := (this s)\<lparr>encoder := Some
                          (if closes then e\<lparr>enc_state := Closed, pending := 0\<rparr>
                           else e\<lparr>pending := pending e - 1\<rparr>)\<rparr>\<rparr>) msg"
    by (auto simp: step_def split: option.splits if_splits)
  from e show ?thesis
    unfolding s'
    by (intro count_inv_same [OF inv])
       (simp_all add: error_callback_fields encoder_configured_def)
next
  case Cancel
  with st have "s' = cancel s" by (simp add: step_def)
  then show ?thesis by (intro count_inv_same [OF inv]) simp_all
next
  case (MuxSettled p outcome)
  with st show ?thesis
    by (cases outcome)
       (auto simp: step_def finalize_calls_def flush_calls_def encoder_configured_def
             quiet_def split: if_splits intro!: count_inv_same [OF inv])
qed

lemma reachable_count_inv: "reachable env cfg s \<Longrightarrow> count_inv s"
  by (induction rule: reachable.induct) (auto intro: count_inv_begin count_inv_step)

subsection \<open>The chunk counter and the captured configuration\<close>

lemma meta_inv_begin: "meta_inv (export_begin ex0)"
  by (simp add: meta_inv_def)

lemma meta_inv_closed [simp]:
  "meta_inv (throw s m)" "meta_inv (return_result s r)"
  by (simp_all add: meta_inv_def)

lemma meta_inv_segment:
  assumes "meta_inv s" and "pc s = AwaitMuxerInit \<or> loop_pc (pc s)"
    and "segment_result s t"
  shows "meta_inv t"
proof -
  from assms(2) have ne: "\<not> early_pc (pc s)" by (auto simp: loop_pc_def)
  from assms(3) have nt: "\<not> early_pc (pc t)"
    by (auto simp: segment_result_def loop_pc_def)
  show ?thesis
  proof (cases "encoder (this t)")
    case None
    with nt show ?thesis by (simp add: meta_inv_def)
  next
    case (Some e')
    with assms(3) have same: "same_session s t"
      and rest: "closure_videoDescription t = closure_videoDescription s"
        "chunks_added t = chunks_added s"
      by (auto simp: segment_result_def)
    from same Some obtain e where "encoder (this s) = Some e"
      by (auto simp: same_session_def)
    with assms(1) ne same rest Some nt show ?thesis
      by (auto simp: meta_inv_def same_session_def)
  qed
qed

lemma meta_inv_same:
  assumes "meta_inv s" and "pc t = pc s" and "chunks_added t = chunks_added s"
    and "closure_videoDescription t = closure_videoDescription s"
    and "muxer (this t) = muxer (this s)" and "chunkCount (this t) = chunkCount (this s)"
    and "videoDescription (this t) = videoDescription (this s)"
    and "videoColorSpace (this t) = videoColorSpace (this s)"
    and "\<And>e'. encoder (this t) = Some e' \<Longrightarrow>
           \<exists>e. encoder (this s) = Some e \<and> pending e' \<le> pending e"
  shows "meta_inv t"
proof (cases "encoder (this t)")
  case None
  with assms(1-3,6-8) show ?thesis by (simp add: meta_inv_def)
next
  case (Some e')
  with assms(9) obtain e where "encoder (this s) = Some e" "pending e' \<le> pending e" by blast
  with assms(1-8) Some show ?thesis by (auto simp: meta_inv_def)
qed

lemma meta_inv_resume:
  assumes inv: "meta_inv s" and res: "resume env cfg s outcome = Some s'"
  shows "meta_inv s'"
proof (cases "pc s = AwaitMuxerInit \<or> loop_pc (pc s)")
  case True
  then show ?thesis
    by (rule meta_inv_segment [OF inv _ resume_segment [OF res True]])
next
  case False
  show ?thesis
  proof (cases "pc s")
    case AwaitLoadVideo
    with res inv show ?thesis
      by (cases outcome) (auto simp: resume_at meta_inv_def split: option.splits)
  next
    case AwaitRendererInit
    show ?thesis
    proof (cases outcome)
      case Fulfilled
      obtain e where e: "encoder (this (fst (initializeEncoder env
                 (s\<lparr>totalFrames := \<lceil>video_duration env * frameRate cfg\<rceil>\<rparr>)))) = Some e"
          "pending e = 0"
        using initializeEncoder_fields(11) by blast
      from res AwaitRendererInit Fulfilled inv e show ?thesis
        by (auto simp: resume_at meta_inv_def initializeEncoder_fields)
    next
      case (Rejected m)
      with res AwaitRendererInit show ?thesis by (auto simp: resume_at)
    qed
  next
    case (AwaitInitEncoder failure)
    with res inv show ?thesis
      by (cases failure) (auto simp: resume_at meta_inv_def split: if_splits option.splits)
  next
    case AwaitFlush
    with res inv show ?thesis
      by (cases outcome)
         (auto simp: resume_at meta_inv_def await_muxing_def split: if_splits option.splits)
  next
    case (AwaitMuxAll promises)
    with res inv show ?thesis
      by (cases outcome)
         (auto simp: resume_at meta_inv_def chunks_added_def split: if_splits option.splits)
  next
    case AwaitFinalize
    with res show ?thesis by (cases outcome) (auto simp: resume_at)
  next
    case (Returned r)
    with res show ?thesis by (simp add: resume_at)
  qed (use False in \<open>simp_all add: loop_pc_def\<close>)
qed

lemma capture_decoder_config_config:
  "videoDescription (this s) = None \<Longrightarrow> closure_videoDescription s = None \<Longrightarrow>
   videoDescription (this (capture_decoder_config s meta)) = meta_description meta"
  "videoColorSpace (this s) = None \<Longrightarrow>
   videoColorSpace (this (capture_decoder_config s meta)) = meta_colorSpace meta"
  by (auto simp: capture_decoder_config_def Let_def split: option.splits)

lemma error_callback_closure:
  "closure_videoDescription (error_callback s m) = closure_videoDescription s"
  by (simp add: error_callback_def)

lemma meta_inv_step:
  assumes inv: "meta_inv s" and st: "step env cfg s ev = Some s'"
  shows "meta_inv s'"
proof (cases ev)
  case (Resume outcome)
  with assms show ?thesis by (simp add: step_def meta_inv_resume)
next
  case (EncoderOutput chunk meta)
  with st obtain e where e: "encoder (this s) = Some e" "enc_state e = Configured" "pending e > 0"
    and s': "s' = output_callback cfg
                    (s\<lparr>this := (this s)\<lparr>encoder := Some (e\<lparr>pending := pending e - 1\<rparr>)\<rparr>\<rparr>) chunk meta"
    by (auto simp: step_def split: option.splits if_splits)
  from inv e have ne: "\<not> early_pc (pc s)" and mux: "muxer (this s) \<noteq> None"
    and cnt: "chunkCount (this s) = chunks_added s"
    by (auto simp: meta_inv_def split: if_splits)
  from ne mux cnt show ?thesis
    unfolding s'
    by (auto simp: meta_inv_def output_callback_fields chunks_added_def output_callback_calls)
next
  case (EncoderError msg closes)
  with st obtain e where e: "encoder (this s) = Some e" "enc_state e = Configured"
    and s': "s' = error_callback
                    (s\<lparr>this := (this s)\<lparr>encoder := Some
                          (if closes then e\<lparr>enc_state := Closed, pending := 0\<rparr>
                           else e\<lparr>pending := pending e - 1\<rparr>)\<rparr>\<rparr>) msg"
    by (auto simp: step_def split: option.splits if_splits)
  from e show ?thesis
    unfolding s'
    by (intro meta_inv_same [OF inv])
       (auto simp: error_callback_fields error_callback_closure)
next
  case Cancel
  with st inv show ?thesis by (auto simp: step_def meta_inv_def)
next
  case (MuxSettled p outcome)
  with st show ?thesis
    by (cases outcome)
       (auto simp: step_def chunks_added_def split: if_splits intro!: meta_inv_same [OF inv])
qed

lemma reachable_meta_inv: "reachable env cfg s \<Longrightarrow> meta_inv s"
  by (induction rule: reachable.induct) (auto intro: meta_inv_begin meta_inv_step)

subsection \<open>Filling the queue\<close>

lemma render_done_submits:
  assumes "pc s = AwaitRenderFrame" and "renderer (this s) \<noteq> None"
    and "encoder_configured s" and "\<not> cancelled (this s)"
    and "encodeQueue (this s) < MAX_ENCODE_QUEUE"
    and "int (Suc (frameIndex s)) < totalFrames s"
    and "\<not> needs_seek env (Suc (frameIndex s))"
  shows "\<exists>s'. step env cfg s (Resume Fulfilled) = Some s' \<and> pc s' = AwaitRenderFrame
           \<and> renderer (this s') \<noteq> None \<and> encoder_configured s' \<and> \<not> cancelled (this s')
           \<and> encodeQueue (this s') = encodeQueue (this s) + 1
           \<and> frameIndex s' = Suc (frameIndex s) \<and> totalFrames s' = totalFrames s
           \<and> encode_calls s' = Suc (encode_calls s)"
proof -
  let ?t = "submit_frame cfg s"
  from assms(2) obtain r where r: "renderer (this s) = Some r" by auto
  from assms(3) obtain e where e: "encoder (this s) = Some e" "enc_state e = Configured"
    by (auto simp: encoder_configured_def split: option.splits)
  from e have q: "encodeQueue (this ?t) = encodeQueue (this s) + 1"
    by (simp add: submit_frame_def Let_def)
  from assms(4,5) have "backpressure env cfg s = loop_head env ?t"
    by (simp add: backpressure_def)
  also from assms(4,6,7) have "loop_head env ?t = render_frame ?t"
    by (simp add: loop_head_def Let_def submit_frame_fields)
  also from r have "render_frame ?t = (emit [RenderFrame (frameIndex ?t)] ?t)\<lparr>pc := AwaitRenderFrame\<rparr>"
    by (simp add: render_frame_def submit_frame_session)
  finally have "step env cfg s (Resume Fulfilled) =
                  Some ((emit [RenderFrame (frameIndex ?t)] ?t)\<lparr>pc := AwaitRenderFrame\<rparr>)"
    using assms(1) r by (simp add: step_def resume_at)
  with assms(3,4) r q show ?thesis
    by (simp add: submit_frame_fields submit_frame_session encode_calls_def calls_submit_frame)
qed

lemma frames_run:
  "n \<le> 120 \<Longrightarrow>
   \<exists>s. run env_long cfg_quiet (export_begin new_exporter) (frames_events n) = Some s
      \<and> pc s = AwaitRenderFrame \<and> renderer (this s) \<noteq> None \<and> encoder_configured s
      \<and> \<not> cancelled (this s) \<and> encodeQueue (this s) = int n
      \<and> frameIndex s = n \<and> totalFrames s = 200"
proof (induction n)
  case 0
  show ?case
    by (simp add: frames_events_def env_long_def cfg_quiet_def run_defs run_inputs
        observation_defs Let_def)
next
  case (Suc n)
  then obtain s where run: "run env_long cfg_quiet (export_begin new_exporter) (frames_events n) = Some s"
    and s: "pc s = AwaitRenderFrame" "renderer (this s) \<noteq> None" "encoder_configured s"
      "\<not> cancelled (this s)" "encodeQueue (this s) = int n" "frameIndex s = n"
      "totalFrames s = 200"
    by auto
  from Suc.prems s have "encodeQueue (this s) < MAX_ENCODE_QUEUE"
    and "int (Suc (frameIndex s)) < totalFrames s"
    and "\<not> needs_seek env_long (Suc (frameIndex s))"
    by (simp_all add: MAX_ENCODE_QUEUE_def env_long_def env0_def)
  from render_done_submits [OF s(1-4) this, of cfg_quiet]
  obtain s' where s': "step env_long cfg_quiet s (Resume Fulfilled) = Some s'"
      "pc s' = AwaitRenderFrame" "renderer (this s') \<noteq> None" "encoder_configured s'"
      "\<not> cancelled (this s')" "encodeQueue (this s') = encodeQueue (this s) + 1"
      "frameIndex s' = Suc (frameIndex s)" "totalFrames s' = totalFrames s"
      "encode_calls s' = Suc (encode_calls s)"
    by blast
  have "frames_events (Suc n) = frames_events n @ [Resume Fulfilled]"
    by (simp add: frames_events_def replicate_append_same)
  with run s'(1) have "run env_long cfg_quiet (export_begin new_exporter) (frames_events (Suc n)) = Some s'"
    by (simp add: run_append)
  with s' s show ?case by simp
qed

lemma cancel_in_wait_run:
  "\<exists>s. run env_long cfg_quiet (export_begin new_exporter) cancel_in_wait_events = Some s
      \<and> pc s = AwaitBackpressure \<and> cancelled (this s) \<and> frameIndex s = 120"
proof -
  from frames_run [of 120]
  obtain s where run: "run env_long cfg_quiet (export_begin new_exporter) (frames_events 120) = Some s"
    and s: "pc s = AwaitRenderFrame" "renderer (this s) \<noteq> None" "\<not> cancelled (this s)"
      "encodeQueue (this s) = 120" "frameIndex s = 120"
    by auto
  from s have "step env_long cfg_quiet s (Resume Fulfilled) = Some (s\<lparr>pc := AwaitBackpressure\<rparr>)"
    by (auto simp: step_def resume_at backpressure_def MAX_ENCODE_QUEUE_def)
  with run s show ?thesis
    by (simp add: cancel_in_wait_events_def run_append step_def)
qed

lemma trace_cancel:
  "trace (cancel s) =
     trace s @ (if encoder_configured s then [EncoderClose] else [])
             @ (if decoder (this s) \<noteq> None then [DecoderDestroy] else [])
             @ (if renderer (this s) \<noteq> None then [RendererDestroy] else [])"
  by (simp add: cancel_def cleanup_def Let_def encoder_configured_def split: option.split)

lemma step_keeps_pc:
  assumes "step env cfg s ev = Some s'" and "\<And>outcome. ev \<noteq> Resume outcome"
  shows "pc s' = pc s"
proof (cases ev)
  case (Resume outcome)
  with assms(2) show ?thesis by blast
next
  case (EncoderOutput chunk meta)
  with assms(1) show ?thesis
    by (auto simp: step_def output_callback_fields split: option.splits if_splits)
next
  case (EncoderError msg closes)
  with assms(1) show ?thesis
    by (auto simp: step_def error_callback_fields split: option.splits if_splits)
next
  case Cancel
  with assms(1) show ?thesis by (auto simp: step_def)
next
  case (MuxSettled p outcome)
  with assms(1) show ?thesis
    by (cases outcome) (auto simp: step_def split: if_splits)
qed

text \<open>
  C3 (amended): \<open>cancel()\<close> sets the flag and at once runs \<open>cleanup()\<close>: it closes the
  encoder if it is configured, destroys the decoder and the renderer if they are there,
  and drops them and the muxer; it makes no other call, and it leaves \<open>export()\<close>
  suspended at the await where it is. The flag is tested at the top of every iteration,
  where a set flag makes \<open>export()\<close> return the cancellation result, and inside the
  backpressure wait. A cancellation during the loop makes \<open>export()\<close> return
  \<open>success = false\<close> without submitting another frame, at whichever await of the loop it
  arrives; when it arrives in the backpressure wait, the message is "Export cancelled".
\<close>

theorem cancel_is_cooperative:
  assumes "reachable env cfg s"
  shows "(\<exists>s'. step env cfg s Cancel = Some s' \<and> cancelled (this s') \<and> pc s' = pc s
            \<and> frameIndex s' = frameIndex s
            \<and> trace s' =
                 trace s @ (if encoder_configured s then [EncoderClose] else [])
                         @ (if decoder (this s) \<noteq> None then [DecoderDestroy] else [])
                         @ (if renderer (this s) \<noteq> None then [RendererDestroy] else [])
            \<and> encoder (this s') = None \<and> decoder (this s') = None
            \<and> renderer (this s') = None \<and> muxer (this s') = None
            \<and> encode_calls s' = encode_calls s \<and> finalize_calls s' = finalize_calls s)
       \<and> (cancelled (this s) \<longrightarrow> loop_head env s = return_result s cancelled_result)
       \<and> (pc s = AwaitBackpressure \<and> cancelled (this s) \<longrightarrow>
            (\<exists>s'. step env cfg s (Resume Fulfilled) = Some s'
               \<and> pc s' = Returned cancelled_result \<and> encode_calls s' = encode_calls s))
       \<and> (\<forall>outcome s'. loop_pc (pc s) \<and> cancelled (this s)
              \<and> step env cfg s (Resume outcome) = Some s' \<longrightarrow>
            (\<exists>r. pc s' = Returned r \<and> success r = False)
            \<and> encode_calls s' = encode_calls s)"
proof -
  from assms have inv: "queue_inv s" by (rule reachable_queue_inv)
  have release: "\<exists>s'. step env cfg s Cancel = Some s' \<and> cancelled (this s') \<and> pc s' = pc s
            \<and> frameIndex s' = frameIndex s
            \<and> trace s' =
                 trace s @ (if encoder_configured s then [EncoderClose] else [])
                         @ (if decoder (this s) \<noteq> None then [DecoderDestroy] else [])
                         @ (if renderer (this s) \<noteq> None then [RendererDestroy] else [])
            \<and> encoder (this s') = None \<and> decoder (this s') = None
            \<and> renderer (this s') = None \<and> muxer (this s') = None
            \<and> encode_calls s' = encode_calls s \<and> finalize_calls s' = finalize_calls s"
    by (simp add: step_def encode_calls_def trace_cancel)
  have top: "loop_head env s = return_result s cancelled_result" if "cancelled (this s)"
    using that by (simp add: loop_head_def after_loop_def)
  have wait: "\<exists>s'. step env cfg s (Resume Fulfilled) = Some s'
               \<and> pc s' = Returned cancelled_result \<and> encode_calls s' = encode_calls s"
    if a: "pc s = AwaitBackpressure \<and> cancelled (this s)"
  proof -
    from inv a have none: "encoder (this s) = None"
      by (simp add: queue_inv_def loop_pc_def)
    let ?t = "submit_frame cfg s"
    from a have c: "cancelled (this ?t)" by (simp add: submit_frame_fields)
    from a have "step env cfg s (Resume Fulfilled) = Some (loop_head env ?t)"
      by (simp add: step_def resume_at backpressure_def)
    moreover from c have "loop_head env ?t = return_result ?t cancelled_result"
      by (simp add: loop_head_def after_loop_def)
    moreover from none have "encode_calls ?t = encode_calls s"
      by (simp add: encode_calls_def calls_submit_frame encoder_configured_def)
    ultimately show ?thesis by (simp add: encode_calls_def)
  qed
  have anywhere: "(\<exists>r. pc s' = Returned r \<and> success r = False)
                  \<and> encode_calls s' = encode_calls s"
    if b: "loop_pc (pc s) \<and> cancelled (this s) \<and> step env cfg s (Resume outcome) = Some s'"
    for outcome s'
  proof -
    from b have res: "resume env cfg s outcome = Some s'" by (simp add: step_def)
    from inv b have none: "renderer (this s) = None"
      by (simp add: queue_inv_def)
    consider (ready) "pc s = AwaitFrameReady" | (render) "pc s = AwaitRenderFrame"
      | (waiting) "pc s = AwaitBackpressure"
      using b by (auto simp: loop_pc_def)
    then show ?thesis
    proof cases
      case ready
      with res none show ?thesis
        by (cases outcome) (auto simp: resume_at render_frame_def encode_calls_def)
    next
      case render
      with res none show ?thesis
        by (cases outcome) (auto simp: resume_at encode_calls_def)
    next
      case waiting
      with res have f: "outcome = Fulfilled" by (cases outcome) (simp_all add: resume_at)
      from waiting b wait obtain t where "step env cfg s (Resume Fulfilled) = Some t"
        "pc t = Returned cancelled_result" "encode_calls t = encode_calls s"
        by blast
      with b f show ?thesis by (auto simp: cancelled_result_def)
    qed
  qed
  from release top wait anywhere show ?thesis by blast
qed

theorem cancel_is_cooperative_witness:
  "(\<exists>s s'. run env_long cfg_quiet (export_begin new_exporter) cancel_in_wait_events = Some s
      \<and> pc s = AwaitBackpressure \<and> cancelled (this s)
      \<and> step env_long cfg_quiet s (Resume Fulfilled) = Some s'
      \<and> pc s' = Returned \<lparr>success = False, blob = None, error = Some ''Export cancelled''\<rparr>
      \<and> encode_calls s' = encode_calls s)
   \<and> (\<exists>s c c' r. run env0 cfg0 (export_begin new_exporter) first_frame_events = Some s
      \<and> step env0 cfg0 s Cancel = Some c
      \<and> trace c = trace s @ [EncoderClose, DecoderDestroy, RendererDestroy]
      \<and> pc c = AwaitFrameReady \<and> cancelled (this c)
      \<and> step env0 cfg0 c (Resume Fulfilled) = Some c'
      \<and> pc c' = Returned r \<and> success r = False \<and> encode_calls c' = encode_calls c)"
proof
  from cancel_in_wait_run
  obtain s where run: "run env_long cfg_quiet (export_begin new_exporter) cancel_in_wait_events = Some s"
    and s: "pc s = AwaitBackpressure" "cancelled (this s)"
    by auto
  have "reachable env_long cfg_quiet s"
    by (rule reachable_run [OF reachable.start run])
  from cancel_is_cooperative [OF this] run s
  show "\<exists>s s'. run env_long cfg_quiet (export_begin new_exporter) cancel_in_wait_events = Some s
      \<and> pc s = AwaitBackpressure \<and> cancelled (this s)
      \<and> step env_long cfg_quiet s (Resume Fulfilled) = Some s'
      \<and> pc s' = Returned \<lparr>success = False, blob = None, error = Some ''Export cancelled''\<rparr>
      \<and> encode_calls s' = encode_calls s"
    by (auto simp: cancelled_result_def)
next
  obtain s c c' where run: "run env0 cfg0 (export_begin new_exporter) first_frame_events = Some s"
    and c: "step env0 cfg0 s Cancel = Some c" "pc c = AwaitFrameReady" "cancelled (this c)"
      "encoder_configured s" "decoder (this s) \<noteq> None" "renderer (this s) \<noteq> None"
    and c': "step env0 cfg0 c (Resume Fulfilled) = Some c'"
    by (simp add: run_events run_defs run_inputs observation_defs Let_def)
  have rs: "reachable env0 cfg0 s"
    by (rule reachable_run [OF reachable.start run])
  then have rc: "reachable env0 cfg0 c" using c(1) by (rule reachable.turn)
  from c(2) have lp: "loop_pc (pc c)" by (simp add: loop_pc_def)
  from cancel_is_cooperative [OF rs] c(1,4-6)
  have tr: "trace c = trace s @ [EncoderClose, DecoderDestroy, RendererDestroy]"
    by auto
  from cancel_is_cooperative [OF rc] lp c(3) c'
  obtain r where "pc c' = Returned r" "success r = False" "encode_calls c' = encode_calls c"
    by blast
  with run c c' tr
  show "\<exists>s c c' r. run env0 cfg0 (export_begin new_exporter) first_frame_events = Some s
      \<and> step env0 cfg0 s Cancel = Some c
      \<and> trace c = trace s @ [EncoderClose, DecoderDestroy, RendererDestroy]
      \<and> pc c = AwaitFrameReady \<and> cancelled (this c)
      \<and> step env0 cfg0 c (Resume Fulfilled) = Some c'
      \<and> pc c' = Returned r \<and> success r = False \<and> encode_calls c' = encode_calls c"
    by blast
qed

text \<open>
  C4 (amended): in every run \<open>finalize()\<close> is called at most once, and exactly once when
  the export succeeds. At the moment it is called, every promise of \<open>addVideoChunk\<close> has
  settled and the encoder holds no submitted frame that is still to be emitted. The turn
  that leaves the loop calls \<open>flush()\<close>, once, and awaits it exactly when the encoder is
  configured at that moment; when the encoder is not configured then, \<open>flush()\<close> is
  skipped and the turn goes straight on to await the muxing promises.
\<close>

theorem finalize_once_after_drain:
  assumes "reachable env cfg s" and "step env cfg s ev = Some s'"
  shows "finalize_calls s' \<le> 1
       \<and> (finalize_calls s' \<noteq> finalize_calls s \<longrightarrow>
            finalize_calls s = 0 \<and> mux_pending s = {} \<and> \<not> outputs_pending s
            \<and> flush_calls s \<le> 1 \<and> (flush_calls s = 0 \<longrightarrow> \<not> encoder_configured s))
       \<and> (\<forall>r. pc s' = Returned r \<and> success r \<longrightarrow> finalize_calls s' = 1)
       \<and> ((pc s = AwaitMuxerInit \<or> loop_pc (pc s))
            \<and> (pc s' = AwaitFlush \<or> (\<exists>ps. pc s' = AwaitMuxAll ps)) \<longrightarrow>
            (if encoder_configured s'
             then pc s' = AwaitFlush \<and> flush_calls s' = 1
             else pc s' = AwaitMuxAll (muxingPromises (this s')) \<and> flush_calls s' = 0))"
proof -
  from assms have "reachable env cfg s'" by (rule reachable.turn)
  then have c': "count_inv s'" by (rule reachable_count_inv)
  then have once: "finalize_calls s' \<le> 1" by (rule count_inv_finalize_le)
  from c' have finished: "\<forall>r. pc s' = Returned r \<and> success r \<longrightarrow> finalize_calls s' = 1"
    by (auto simp: count_inv_def)
  from assms(1) have c: "count_inv s" and p: "promise_inv s"
    by (simp_all add: reachable_count_inv reachable_promise_inv)
  have drained: "finalize_calls s = 0 \<and> mux_pending s = {} \<and> \<not> outputs_pending s
            \<and> flush_calls s \<le> 1 \<and> (flush_calls s = 0 \<longrightarrow> \<not> encoder_configured s)"
    if changed: "finalize_calls s' \<noteq> finalize_calls s"
  proof -
    have "\<exists>ps. pc s = AwaitMuxAll ps \<and> (\<forall>p \<in> set ps. p \<notin> mux_pending s)
            \<and> muxer (this s) \<noteq> None"
    proof (cases ev)
      case (Resume outcome)
      with assms(2) have res: "resume env cfg s outcome = Some s'" by (simp add: step_def)
      show ?thesis
      proof (cases "pc s = AwaitMuxerInit \<or> loop_pc (pc s)")
        case True
        from resume_segment [OF res True] changed show ?thesis
          by (simp add: segment_result_def)
      next
        case False
        with res changed show ?thesis
          by (cases "pc s"; cases outcome)
             (auto simp: resume_at await_muxing_def loop_pc_def
                   split: option.splits if_splits)
      qed
    next
      case (EncoderOutput chunk meta)
      with assms(2) changed show ?thesis
        by (auto simp: step_def split: option.splits if_splits)
    next
      case (EncoderError msg closes)
      with assms(2) changed show ?thesis
        by (auto simp: step_def split: option.splits if_splits)
    next
      case Cancel
      with assms(2) changed show ?thesis by (auto simp: step_def)
    next
      case (MuxSettled q outcome)
      with assms(2) changed show ?thesis
        by (cases outcome) (auto simp: step_def finalize_calls_def split: if_splits)
    qed
    then obtain ps where ps: "pc s = AwaitMuxAll ps" "\<forall>p \<in> set ps. p \<notin> mux_pending s"
      "muxer (this s) \<noteq> None"
      by blast
    with p have "mux_pending s \<subseteq> set ps" and np: "\<not> outputs_pending s"
      by (simp_all add: promise_inv_def)
    with ps(2) have "mux_pending s = {}" by auto
    with c ps(1) np show ?thesis by (simp add: count_inv_def)
  qed
  have leaving: "if encoder_configured s'
             then pc s' = AwaitFlush \<and> flush_calls s' = 1
             else pc s' = AwaitMuxAll (muxingPromises (this s')) \<and> flush_calls s' = 0"
    if l: "(pc s = AwaitMuxerInit \<or> loop_pc (pc s))
            \<and> (pc s' = AwaitFlush \<or> (\<exists>ps. pc s' = AwaitMuxAll ps))"
  proof -
    from l have from_loop: "pc s = AwaitMuxerInit \<or> loop_pc (pc s)" by simp
    from l have moved: "pc s' \<noteq> pc s" by (auto simp: loop_pc_def)
    with assms(2) obtain outcome where "ev = Resume outcome"
      using step_keeps_pc by blast
    with assms(2) have res: "resume env cfg s outcome = Some s'" by (simp add: step_def)
    from c from_loop have zero: "flush_calls s = 0"
      by (auto simp: count_inv_def loop_pc_def)
    from resume_segment [OF res from_loop] l zero show ?thesis
      by (auto simp: segment_result_def same_session_def loop_pc_def)
  qed
  from once finished drained leaving show ?thesis by blast
qed

theorem finalize_once_after_drain_witness:
  "(\<exists>s s'. run env0 cfg0 (export_begin new_exporter) drained_events = Some s
      \<and> step env0 cfg0 s (Resume Fulfilled) = Some s'
      \<and> finalize_calls s = 0 \<and> finalize_calls s' = 1
      \<and> mux_pending s = {} \<and> \<not> outputs_pending s \<and> flush_calls s = 1
      \<and> chunks_added s = 2)
   \<and> (\<exists>t t'. run env0 cfg0 (export_begin new_exporter)
                 (first_frame_events @ [EncoderOutput [0] None, Resume Fulfilled]) = Some t
      \<and> pc t = AwaitRenderFrame
      \<and> step env0 cfg0 t (Resume Fulfilled) = Some t'
      \<and> encoder_configured t' \<and> pc t' = AwaitFlush \<and> flush_calls t' = 1)
   \<and> (\<exists>u u'. run env0 cfg0 (export_begin new_exporter)
                 (encode_error_events True @ [Resume Fulfilled]) = Some u
      \<and> pc u = AwaitRenderFrame
      \<and> step env0 cfg0 u (Resume Fulfilled) = Some u'
      \<and> \<not> encoder_configured u' \<and> pc u' = AwaitMuxAll [] \<and> flush_calls u' = 0)"
proof (intro conjI)
  obtain s s' where run: "run env0 cfg0 (export_begin new_exporter) drained_events = Some s"
    and st: "step env0 cfg0 s (Resume Fulfilled) = Some s'"
    and f: "finalize_calls s = 0" "finalize_calls s' = 1" "flush_calls s = 1" "chunks_added s = 2"
    by (simp add: drained_events_def run_events run_defs run_inputs observation_defs Let_def)
  have "reachable env0 cfg0 s"
    by (rule reachable_run [OF reachable.start run])
  from finalize_once_after_drain [OF this st] run st f
  show "\<exists>s s'. run env0 cfg0 (export_begin new_exporter) drained_events = Some s
      \<and> step env0 cfg0 s (Resume Fulfilled) = Some s'
      \<and> finalize_calls s = 0 \<and> finalize_calls s' = 1
      \<and> mux_pending s = {} \<and> \<not> outputs_pending s \<and> flush_calls s = 1
      \<and> chunks_added s = 2"
    by auto
next
  obtain t t' where run: "run env0 cfg0 (export_begin new_exporter)
                 (first_frame_events @ [EncoderOutput [0] None, Resume Fulfilled]) = Some t"
    and st: "step env0 cfg0 t (Resume Fulfilled) = Some t'"
    and f: "pc t = AwaitRenderFrame" "pc t' = AwaitFlush" "encoder_configured t'"
    by (simp add: run_events run_defs run_inputs observation_defs Let_def)
  have "reachable env0 cfg0 t"
    by (rule reachable_run [OF reachable.start run])
  from finalize_once_after_drain [OF this st] run st f
  show "\<exists>t t'. run env0 cfg0 (export_begin new_exporter)
                 (first_frame_events @ [EncoderOutput [0] None, Resume Fulfilled]) = Some t
      \<and> pc t = AwaitRenderFrame
      \<and> step env0 cfg0 t (Resume Fulfilled) = Some t'
      \<and> encoder_configured t' \<and> pc t' = AwaitFlush \<and> flush_calls t' = 1"
    by (auto simp: loop_pc_def)
next
  obtain u u' where run: "run env0 cfg0 (export_begin new_exporter)
                 (encode_error_events True @ [Resume Fulfilled]) = Some u"
    and st: "step env0 cfg0 u (Resume Fulfilled) = Some u'"
    and f: "pc u = AwaitRenderFrame" "pc u' = AwaitMuxAll []" "\<not> encoder_configured u'"
    by (simp add: run_events run_defs run_inputs observation_defs Let_def)
  have "reachable env0 cfg0 u"
    by (rule reachable_run [OF reachable.start run])
  from finalize_once_after_drain [OF this st] run st f
  show "\<exists>u u'. run env0 cfg0 (export_begin new_exporter)
                 (encode_error_events True @ [Resume Fulfilled]) = Some u
      \<and> pc u = AwaitRenderFrame
      \<and> step env0 cfg0 u (Resume Fulfilled) = Some u'
      \<and> \<not> encoder_configured u' \<and> pc u' = AwaitMuxAll [] \<and> flush_calls u' = 0"
    by (auto simp: loop_pc_def)
qed

text \<open>
  A run that reaches the bound: after 119 submissions the next frame is submitted and
  takes the counter to 120; the turn after that enters the backpressure wait, and every
  resume of the wait finds the counter at the bound and waits again.
\<close>

theorem encodeQueue_bounded_witness:
  "\<exists>s s' w. run env_long cfg_quiet (export_begin new_exporter) (frames_events 119) = Some s
      \<and> encodeQueue (this s) = 119
      \<and> step env_long cfg_quiet s (Resume Fulfilled) = Some s'
      \<and> encode_calls s' = Suc (encode_calls s)
      \<and> encodeQueue (this s') = 120 \<and> encodeQueue (this s') \<le> MAX_ENCODE_QUEUE
      \<and> int (frames_in_flight s') \<le> 120
      \<and> step env_long cfg_quiet s' (Resume Fulfilled) = Some w
      \<and> pc w = AwaitBackpressure \<and> encodeQueue (this w) = 120
      \<and> step env_long cfg_quiet w (Resume Fulfilled) = Some w"
proof -
  from frames_run [of 119]
  obtain s where run: "run env_long cfg_quiet (export_begin new_exporter) (frames_events 119) = Some s"
    and s: "pc s = AwaitRenderFrame" "renderer (this s) \<noteq> None" "encoder_configured s"
      "\<not> cancelled (this s)" "encodeQueue (this s) = 119" "frameIndex s = 119"
      "totalFrames s = 200"
    by auto
  from s have "encodeQueue (this s) < MAX_ENCODE_QUEUE"
    and "int (Suc (frameIndex s)) < totalFrames s"
    and "\<not> needs_seek env_long (Suc (frameIndex s))"
    by (simp_all add: MAX_ENCODE_QUEUE_def env_long_def env0_def)
  from render_done_submits [OF s(1-4) this, of cfg_quiet]
  obtain s' where s': "step env_long cfg_quiet s (Resume Fulfilled) = Some s'"
      "pc s' = AwaitRenderFrame" "renderer (this s') \<noteq> None" "\<not> cancelled (this s')"
      "encode_calls s' = Suc (encode_calls s)"
    by blast
  have rs: "reachable env_long cfg_quiet s"
    by (rule reachable_run [OF reachable.start run])
  then have rs': "reachable env_long cfg_quiet s'" using s'(1) by (rule reachable.turn)
  from encodeQueue_bounded [OF rs] s'(1,5) s(5)
  have q: "encodeQueue (this s') = 120" by auto
  let ?w = "s'\<lparr>pc := AwaitBackpressure\<rparr>"
  from s' q have w: "step env_long cfg_quiet s' (Resume Fulfilled) = Some ?w"
    by (auto simp: step_def resume_at backpressure_def MAX_ENCODE_QUEUE_def)
  with rs' have rw: "reachable env_long cfg_quiet ?w" by (rule reachable.turn)
  from encodeQueue_bounded [OF rw] s'(4) q
  have stay: "step env_long cfg_quiet ?w (Resume Fulfilled) = Some ?w"
    by (simp add: MAX_ENCODE_QUEUE_def)
  from encodeQueue_bounded [OF rs'] q
  have "encodeQueue (this s') \<le> MAX_ENCODE_QUEUE" "int (frames_in_flight s') \<le> 120"
    by auto
  with run s(5) s' q w stay show ?thesis
    by (intro exI [of _ s] exI [of _ s'] exI [of _ ?w]) simp
qed

text \<open>
  C8 (amended): for every chunk the encoder emits in any run, the chunk is handed to the
  muxer with a synthesized decoder configuration only if it is the first chunk observed and
  its metadata carries a description: the configuration then holds the codec id of the
  export (by default "avc1.64001f"), the coded width and height of the export, the
  description bytes, and the colour space of the encoder's metadata when it has one,
  otherwise the tags primaries = bt709, transfer = iec61966-2-1, matrix = rgb,
  fullRange = true. Every other chunk is handed over with the encoder's own metadata,
  unchanged.
\<close>

theorem decoder_config_on_first_chunk:
  assumes "reachable env cfg s" and "step env cfg s (EncoderOutput chunk meta) = Some s'"
  shows "trace s' = trace s @
           [AddVideoChunk chunk
              (if chunks_added s = 0 \<and> meta_description meta \<noteq> None
               then Some \<lparr>decoderConfig = Some
                      \<lparr>codec = codec_or_default cfg,
                       codedWidth = Some (cfg_width cfg),
                       codedHeight = Some (cfg_height cfg),
                       description = meta_description meta,
                       colorSpace = Some (case meta_colorSpace meta of
                                            Some cs \<Rightarrow> cs
                                          | None \<Rightarrow>
                                              \<lparr>primaries = ''bt709'', transfer = ''iec61966-2-1'',
                                               matrix = ''rgb'', fullRange = True\<rparr>)\<rparr>\<rparr>
               else meta)]"
proof -
  from assms(2) obtain e where e: "encoder (this s) = Some e" "pending e > 0"
    and s': "s' = output_callback cfg
                    (s\<lparr>this := (this s)\<lparr>encoder := Some (e\<lparr>pending := pending e - 1\<rparr>)\<rparr>\<rparr>) chunk meta"
    by (auto simp: step_def split: option.splits if_splits)
  let ?s1 = "s\<lparr>this := (this s)\<lparr>encoder := Some (e\<lparr>pending := pending e - 1\<rparr>)\<rparr>\<rparr>"
  from assms(1) have "meta_inv s" by (rule reachable_meta_inv)
  with e obtain u where mux: "muxer (this s) = Some u"
    and cnt: "chunkCount (this s) = chunks_added s"
    and first: "chunks_added s = 0 \<Longrightarrow>
                  videoDescription (this s) = None \<and> closure_videoDescription s = None \<and>
                  videoColorSpace (this s) = None"
    by (auto simp: meta_inv_def split: if_splits)
  show ?thesis
  proof (cases "chunks_added s = 0")
    case True
    with first have "videoDescription (this ?s1) = None" "closure_videoDescription ?s1 = None"
      "videoColorSpace (this ?s1) = None"
      by simp_all
    then have "videoDescription (this (capture_decoder_config ?s1 meta)) = meta_description meta"
      and "videoColorSpace (this (capture_decoder_config ?s1 meta)) = meta_colorSpace meta"
      by (simp_all add: capture_decoder_config_config)
    with True cnt mux show ?thesis
      unfolding s'
      by (simp add: output_callback_def Let_def start_muxing_def synthesized_metadata_def
          capture_decoder_config_fields default_colorSpace_def split: option.split)
  next
    case False
    with cnt mux show ?thesis
      unfolding s'
      by (simp add: output_callback_def Let_def start_muxing_def capture_decoder_config_fields)
  qed
qed

theorem decoder_config_on_first_chunk_witness:
  "\<exists>s s' t t'. run env0 cfg0 (export_begin new_exporter) first_frame_events = Some s
      \<and> step env0 cfg0 s (EncoderOutput [7] (Some \<lparr>decoderConfig = Some
            \<lparr>codec = ''vp8'', codedWidth = None, codedHeight = None,
             description = Some [9], colorSpace = None\<rparr>\<rparr>)) = Some s'
      \<and> trace s' = trace s @
          [AddVideoChunk [7] (Some \<lparr>decoderConfig = Some
             \<lparr>codec = ''avc1.64001f'', codedWidth = Some 640, codedHeight = Some 360,
              description = Some [9],
              colorSpace = Some \<lparr>primaries = ''bt709'', transfer = ''iec61966-2-1'',
                                 matrix = ''rgb'', fullRange = True\<rparr>\<rparr>\<rparr>)]
      \<and> run env0 cfg0 (export_begin new_exporter)
            (first_frame_events @ [EncoderOutput [0] None, Resume Fulfilled, Resume Fulfilled])
          = Some t
      \<and> step env0 cfg0 t (EncoderOutput [1] encoder_meta) = Some t'
      \<and> trace t' = trace t @ [AddVideoChunk [1] encoder_meta]"
proof -
  let ?m = "Some \<lparr>decoderConfig = Some
            \<lparr>codec = ''vp8'', codedWidth = None, codedHeight = None,
             description = Some [9], colorSpace = None\<rparr>\<rparr>"
  obtain s s' where run: "run env0 cfg0 (export_begin new_exporter) first_frame_events = Some s"
    and st: "step env0 cfg0 s (EncoderOutput [7] ?m) = Some s'"
    and c: "chunks_added s = 0"
    by (simp add: run_events run_defs run_inputs observation_defs Let_def)
  obtain t t' where run2: "run env0 cfg0 (export_begin new_exporter)
            (first_frame_events @ [EncoderOutput [0] None, Resume Fulfilled, Resume Fulfilled])
          = Some t"
    and st2: "step env0 cfg0 t (EncoderOutput [1] encoder_meta) = Some t'"
    and c2: "chunks_added t = 1"
    by (simp add: run_events run_defs run_inputs observation_defs Let_def)
  have r: "reachable env0 cfg0 s"
    by (rule reachable_run [OF reachable.start run])
  have r2: "reachable env0 cfg0 t"
    by (rule reachable_run [OF reachable.start run2])
  from decoder_config_on_first_chunk [OF r st] decoder_config_on_first_chunk [OF r2 st2]
    run st c run2 st2 c2
  show ?thesis
    by (simp add: meta_description_def meta_colorSpace_def codec_or_default_def cfg0_def)
qed

lemma error_in_wait_run:
  "\<exists>s e. run env_long cfg_quiet (export_begin new_exporter) error_in_wait_events = Some s
      \<and> pc s = AwaitBackpressure \<and> \<not> cancelled (this s) \<and> encodeQueue (this s) = 120
      \<and> encoder (this s) = Some e \<and> enc_state e = Closed"
proof -
  from frames_run [of 120]
  obtain s where run: "run env_long cfg_quiet (export_begin new_exporter) (frames_events 120) = Some s"
    and s: "pc s = AwaitRenderFrame" "renderer (this s) \<noteq> None" "\<not> cancelled (this s)"
      "encodeQueue (this s) = 120" "encoder_configured s"
    by auto
  from s(5) obtain e where e: "encoder (this s) = Some e" "enc_state e = Configured"
    by (auto simp: encoder_configured_def split: option.splits)
  from s have "step env_long cfg_quiet s (Resume Fulfilled) = Some (s\<lparr>pc := AwaitBackpressure\<rparr>)"
    by (auto simp: step_def resume_at backpressure_def MAX_ENCODE_QUEUE_def)
  with run s e show ?thesis
    by (simp add: error_in_wait_events_def run_append step_def error_callback_fields)
qed

text \<open>
  C2, the code at the failing input: frame 0 has been submitted (the counter is 1) and the
  encoder reports an error for it, closing itself or not. The error callback logs the
  error and \<open>export()\<close> goes on waiting, but the counter is still 1 although the encoder
  holds no frame any more: the error callback does not decrement it. When the error comes
  while the loop waits with 120 frames in flight, the counter stays at 120: no chunk can
  be emitted any more, and every time the wait is resumed it finds the counter at the
  bound and waits again.
\<close>

theorem encoder_error_leaves_counter:
  "(\<forall>closes. \<exists>s e. run env0 cfg0 (export_begin new_exporter) (encode_error_events closes) = Some s
       \<and> encoder (this s) = Some e \<and> pending e = 0
       \<and> encodeQueue (this s) = 1
       \<and> last (trace s) = ConsoleError ''VideoEncoder error: encode failed''
       \<and> pc s = AwaitFrameReady)
   \<and> (\<exists>s. run env_long cfg_quiet (export_begin new_exporter) error_in_wait_events = Some s
       \<and> pc s = AwaitBackpressure \<and> encodeQueue (this s) = 120
       \<and> (\<forall>chunk meta. step env_long cfg_quiet s (EncoderOutput chunk meta) = None)
       \<and> step env_long cfg_quiet s (Resume Fulfilled) = Some s)"
proof
  show "\<forall>closes. \<exists>s e. run env0 cfg0 (export_begin new_exporter) (encode_error_events closes) = Some s
       \<and> encoder (this s) = Some e \<and> pending e = 0
       \<and> encodeQueue (this s) = 1
       \<and> last (trace s) = ConsoleError ''VideoEncoder error: encode failed''
       \<and> pc s = AwaitFrameReady"
    by (simp add: run_events run_defs run_inputs Let_def)
next
  from error_in_wait_run
  obtain s e where s: "run env_long cfg_quiet (export_begin new_exporter) error_in_wait_events = Some s"
    "pc s = AwaitBackpressure" "\<not> cancelled (this s)" "encodeQueue (this s) = 120"
    "encoder (this s) = Some e" "enc_state e = Closed"
    by blast
  then have "\<forall>chunk meta. step env_long cfg_quiet s (EncoderOutput chunk meta) = None"
    and "step env_long cfg_quiet s (Resume Fulfilled) = Some s"
    by (simp_all add: step_def resume_at backpressure_def MAX_ENCODE_QUEUE_def)
  with s show "\<exists>s. run env_long cfg_quiet (export_begin new_exporter) error_in_wait_events = Some s
       \<and> pc s = AwaitBackpressure \<and> encodeQueue (this s) = 120
       \<and> (\<forall>chunk meta. step env_long cfg_quiet s (EncoderOutput chunk meta) = None)
       \<and> step env_long cfg_quiet s (Resume Fulfilled) = Some s"
    by blast
qed

end
